theory Spec2Isabelle
  imports Main
begin

section \<open>Values of the feed and of the documents\<close>

text \<open>
  The pipeline of \<^verbatim>\<open>etl_connector.py\<close> works on what \<^verbatim>\<open>response.json()\<close> returns and
  on the dictionaries it builds from that. A value is one of Python's \<^verbatim>\<open>None\<close>, a
  \<^verbatim>\<open>bool\<close>, an \<^verbatim>\<open>int\<close> (unbounded), a \<^verbatim>\<open>str\<close>, a \<^verbatim>\<open>list\<close>, a \<^verbatim>\<open>dict\<close> with
  string keys, or a \<^verbatim>\<open>datetime\<close> (only the transformer creates those).
  A dictionary is kept as the list of its items in insertion order; lookup takes the
  first binding of a key. A character of a \<^verbatim>\<open>str\<close> is a code point below 256.
  JSON numbers with a fraction or an exponent (Python \<^verbatim>\<open>float\<close>) are outside the model.
\<close>

datatype datetime = Datetime int int int int int int int

datatype pyval =
    PNone
  | PBool bool
  | PInt int
  | PStr string
  | PList "pyval list"
  | PDict "(string \<times> pyval) list"
  | PDatetime datetime

type_synonym pydict = "(string \<times> pyval) list"

text \<open>
  Exceptions are values. \<open>External\<close> stands for an exception class of a library
  (\<^verbatim>\<open>requests\<close>, \<^verbatim>\<open>pymongo\<close>), named by its argument; all of them derive from
  \<^verbatim>\<open>Exception\<close>.
\<close>

datatype exn =
    ValueError
  | TypeError
  | AttributeError
  | KeyError
  | UnboundLocalError
  | External string

text \<open>Truth value of an object, as \<^verbatim>\<open>not x\<close> and \<^verbatim>\<open>if x\<close> test it.\<close>

fun truthy :: "pyval \<Rightarrow> bool" where
  "truthy PNone = False"
| "truthy (PBool b) = b"
| "truthy (PInt n) = (n \<noteq> 0)"
| "truthy (PStr s) = (s \<noteq> [])"
| "truthy (PList xs) = (xs \<noteq> [])"
| "truthy (PDict kvs) = (kvs \<noteq> [])"
| "truthy (PDatetime d) = True"

text \<open>
  \<^verbatim>\<open>str.strip()\<close> removes leading and trailing white space; below code point 256 the
  white-space characters of Python are 9 to 13, 28 to 32, 133 and 160.
\<close>

definition is_space :: "char \<Rightarrow> bool" where
  "is_space c = ((of_char c :: nat) \<in> set [9, 10, 11, 12, 13, 28, 29, 30, 31, 32, 133, 160])"

definition strip :: "string \<Rightarrow> string" where
  "strip s = rev (dropWhile is_space (rev (dropWhile is_space s)))"

text \<open>\<^verbatim>\<open>sub in s\<close> on two strings: \<open>sub\<close> occurs in \<open>s\<close> as a contiguous run.\<close>

fun starts_with :: "string \<Rightarrow> string \<Rightarrow> bool" where
  "starts_with s [] = True"
| "starts_with [] (p # ps) = False"
| "starts_with (c # cs) (p # ps) = (c = p \<and> starts_with cs ps)"

fun substring :: "string \<Rightarrow> string \<Rightarrow> bool" where
  "substring sub [] = (sub = [])"
| "substring sub (c # cs) = (starts_with (c # cs) sub \<or> substring sub cs)"

text \<open>
  \<^verbatim>\<open>k in x\<close> for a string \<open>k\<close>: key membership on a dict, element membership on a
  list, substring test on a string, and \<^verbatim>\<open>TypeError\<close> on everything else.
\<close>

fun contains :: "string \<Rightarrow> pyval \<Rightarrow> exn + bool" where
  "contains k (PDict kvs) = Inr (k \<in> fst ` set kvs)"
| "contains k (PList xs) = Inr (PStr k \<in> set xs)"
| "contains k (PStr s) = Inr (substring k s)"
| "contains k PNone = Inl TypeError"
| "contains k (PBool b) = Inl TypeError"
| "contains k (PInt n) = Inl TypeError"
| "contains k (PDatetime d) = Inl TypeError"

text \<open>\<^verbatim>\<open>x.get(k, default)\<close>: only a dict has the method.\<close>

fun py_get :: "pyval \<Rightarrow> string \<Rightarrow> pyval \<Rightarrow> exn + pyval" where
  "py_get (PDict kvs) k dflt = Inr (case map_of kvs k of None \<Rightarrow> dflt | Some v \<Rightarrow> v)"
| "py_get PNone k dflt = Inl AttributeError"
| "py_get (PBool b) k dflt = Inl AttributeError"
| "py_get (PInt n) k dflt = Inl AttributeError"
| "py_get (PStr s) k dflt = Inl AttributeError"
| "py_get (PList xs) k dflt = Inl AttributeError"
| "py_get (PDatetime d) k dflt = Inl AttributeError"

text \<open>
  \<^verbatim>\<open>x[k]\<close> with a string \<open>k\<close>: \<^verbatim>\<open>KeyError\<close> on a dict without the key,
  \<^verbatim>\<open>TypeError\<close> on a list or a string (their indices are integers) and on the values
  that are not subscriptable.
\<close>

fun getitem :: "pyval \<Rightarrow> string \<Rightarrow> exn + pyval" where
  "getitem (PDict kvs) k = (case map_of kvs k of None \<Rightarrow> Inl KeyError | Some v \<Rightarrow> Inr v)"
| "getitem PNone k = Inl TypeError"
| "getitem (PBool b) k = Inl TypeError"
| "getitem (PInt n) k = Inl TypeError"
| "getitem (PStr s) k = Inl TypeError"
| "getitem (PList xs) k = Inl TypeError"
| "getitem (PDatetime d) k = Inl TypeError"

text \<open>
  The number a value stands for in a comparison with an \<^verbatim>\<open>int\<close>: an \<^verbatim>\<open>int\<close> itself,
  and \<^verbatim>\<open>True\<close> and \<^verbatim>\<open>False\<close> as 1 and 0. Comparing anything else with an
  \<^verbatim>\<open>int\<close> by \<^verbatim>\<open><\<close> or \<^verbatim>\<open><=\<close> raises \<^verbatim>\<open>TypeError\<close>.
\<close>

fun num_of :: "pyval \<Rightarrow> int option" where
  "num_of (PInt n) = Some n"
| "num_of (PBool b) = Some (if b then 1 else 0)"
| "num_of PNone = None"
| "num_of (PStr s) = None"
| "num_of (PList xs) = None"
| "num_of (PDict kvs) = None"
| "num_of (PDatetime d) = None"

section \<open>Validation\<close>

record response =
  status_code :: int
  text_body :: string
  json_body :: "pyval option"

text \<open>
  \<^verbatim>\<open>validate_response\<close>: \<open>json_body\<close> is what \<^verbatim>\<open>response.json()\<close> returns, \<open>None\<close>
  when the body does not parse.
\<close>

definition validate_response :: "response \<Rightarrow> exn + pyval" where
  "validate_response resp =
     (if status_code resp \<noteq> 200 then Inl ValueError
      else case json_body resp of
             None \<Rightarrow> Inl ValueError
           | Some data \<Rightarrow> if \<not> truthy data then Inl ValueError else Inr data)"

definition required_fields :: "string list" where
  "required_fields = [''ioc_value'', ''ioc_type'', ''malware'']"

text \<open>
  The loop over the required fields. The message of the \<^verbatim>\<open>ValueError\<close> is an f-string
  that calls \<^verbatim>\<open>ioc.get('id')\<close>, which itself raises when \<open>ioc\<close> is not a dict.
\<close>

fun check_required :: "pyval \<Rightarrow> string list \<Rightarrow> exn + unit" where
  "check_required ioc [] = Inr ()"
| "check_required ioc (field # more_fields) =
     (case contains field ioc of
        Inl e \<Rightarrow> Inl e
      | Inr True \<Rightarrow> check_required ioc more_fields
      | Inr False \<Rightarrow>
          (case py_get ioc ''id'' PNone of
             Inl e \<Rightarrow> Inl e
           | Inr _ \<Rightarrow> Inl ValueError))"

text \<open>\<^verbatim>\<open>0 <= c <= 100\<close>\<close>

definition in_0_100 :: "pyval \<Rightarrow> exn + bool" where
  "in_0_100 c = (case num_of c of None \<Rightarrow> Inl TypeError | Some n \<Rightarrow> Inr (0 \<le> n \<and> n \<le> 100))"

definition is_blank_or_not_str :: "pyval \<Rightarrow> bool" where
  "is_blank_or_not_str v = (case v of PStr s \<Rightarrow> strip s = [] | _ \<Rightarrow> True)"

text \<open>\<^verbatim>\<open>'.' not in v\<close>, evaluated only once \<open>v\<close> is known to be a string.\<close>

definition lacks_dot :: "pyval \<Rightarrow> bool" where
  "lacks_dot v = (case v of PStr s \<Rightarrow> CHR ''.'' \<notin> set s | _ \<Rightarrow> False)"

definition validate_ioc :: "pyval \<Rightarrow> exn + unit" where
  "validate_ioc ioc =
     (case check_required ioc required_fields of
        Inl e \<Rightarrow> Inl e
      | Inr _ \<Rightarrow>
     (case getitem ioc ''ioc_value'' of
        Inl e \<Rightarrow> Inl e
      | Inr v \<Rightarrow>
          if is_blank_or_not_str v then Inl ValueError
          else
     (case getitem ioc ''ioc_type'' of
        Inl e \<Rightarrow> Inl e
      | Inr t \<Rightarrow>
          if t = PStr ''domain'' \<and> lacks_dot v then Inl ValueError
          else
     (case contains ''confidence_level'' ioc of
        Inl e \<Rightarrow> Inl e
      | Inr False \<Rightarrow> Inr ()
      | Inr True \<Rightarrow>
     (case getitem ioc ''confidence_level'' of
        Inl e \<Rightarrow> Inl e
      | Inr c \<Rightarrow>
     (case in_0_100 c of
        Inl e \<Rightarrow> Inl e
      | Inr ok \<Rightarrow> if \<not> ok then Inl ValueError else Inr ()))))))"

section \<open>Extraction\<close>

text \<open>
  The inner loop of \<^verbatim>\<open>extract_data\<close>: a record that validates is appended, a
  \<^verbatim>\<open>ValueError\<close> skips the record, any other exception leaves the loop.
\<close>

fun collect_iocs :: "pyval list \<Rightarrow> pyval list \<Rightarrow> exn + pyval list" where
  "collect_iocs iocs [] = Inr iocs"
| "collect_iocs iocs (ioc # rest) =
     (case validate_ioc ioc of
        Inr _ \<Rightarrow> collect_iocs (iocs @ [ioc]) rest
      | Inl ValueError \<Rightarrow> collect_iocs iocs rest
      | Inl e \<Rightarrow> Inl e)"

text \<open>The outer loop over \<^verbatim>\<open>data.items()\<close>; a value that is not a list is passed over.\<close>

fun collect_groups :: "pyval list \<Rightarrow> (string \<times> pyval) list \<Rightarrow> exn + pyval list" where
  "collect_groups iocs [] = Inr iocs"
| "collect_groups iocs ((key, items) # rest) =
     (case items of
        PList xs \<Rightarrow>
          (case collect_iocs iocs xs of
             Inl e \<Rightarrow> Inl e
           | Inr iocs' \<Rightarrow> collect_groups iocs' rest)
      | _ \<Rightarrow> collect_groups iocs rest)"

text \<open>\<^verbatim>\<open>data.items()\<close>: only a dict has the method.\<close>

definition py_items :: "pyval \<Rightarrow> exn + (string \<times> pyval) list" where
  "py_items data = (case data of PDict kvs \<Rightarrow> Inr kvs | _ \<Rightarrow> Inl AttributeError)"

text \<open>
  \<^verbatim>\<open>extract_data\<close>. Its argument is the outcome of \<^verbatim>\<open>requests.get\<close>: the response,
  or the exception the request raised. The outer \<^verbatim>\<open>except Exception\<close> turns every
  exception into the empty list.
\<close>

definition extract_body :: "exn + response \<Rightarrow> exn + pyval list" where
  "extract_body got =
     (case got of
        Inl e \<Rightarrow> Inl e
      | Inr resp \<Rightarrow>
     (case validate_response resp of
        Inl e \<Rightarrow> Inl e
      | Inr data \<Rightarrow>
     (case py_items data of
        Inl e \<Rightarrow> Inl e
      | Inr groups \<Rightarrow> collect_groups [] groups)))"

definition extract_data :: "exn + response \<Rightarrow> pyval list" where
  "extract_data got = (case extract_body got of Inl e \<Rightarrow> [] | Inr iocs \<Rightarrow> iocs)"

section \<open>Transformation\<close>

text \<open>Sequencing of steps that may raise: the first exception ends the sequence.\<close>

definition bind_exn :: "exn + 'a \<Rightarrow> ('a \<Rightarrow> exn + 'b) \<Rightarrow> exn + 'b" where
  "bind_exn m f = (case m of Inl e \<Rightarrow> Inl e | Inr v \<Rightarrow> f v)"

text \<open>
  \<^verbatim>\<open>parse_datetime\<close>. The parser \<^verbatim>\<open>datetime.strptime(_, '%Y-%m-%d %H:%M:%S')\<close> belongs
  to the standard library and is a parameter: \<open>strptime s\<close> is \<open>None\<close> when the call
  raises \<^verbatim>\<open>ValueError\<close> on the string \<open>s\<close>. On an argument that is not a string the
  call raises \<^verbatim>\<open>TypeError\<close>, which \<^verbatim>\<open>parse_datetime\<close> does not catch.
\<close>

definition parse_datetime :: "(string \<Rightarrow> datetime option) \<Rightarrow> pyval \<Rightarrow> exn + pyval" where
  "parse_datetime strptime dt_str =
     (if \<not> truthy dt_str then Inr PNone
      else case dt_str of
             PStr s \<Rightarrow> (case strptime s of None \<Rightarrow> Inr PNone | Some d \<Rightarrow> Inr (PDatetime d))
           | _ \<Rightarrow> Inl TypeError)"

text \<open>
  \<^verbatim>\<open>max(a, n)\<close> and \<^verbatim>\<open>min(a, n)\<close> for an integer literal \<open>n\<close>: the built-ins return
  their first argument unless the second is strictly greater (smaller), so a \<^verbatim>\<open>bool\<close>
  in range comes back as the \<^verbatim>\<open>bool\<close> it was.
\<close>

definition max_int :: "pyval \<Rightarrow> int \<Rightarrow> exn + pyval" where
  "max_int a n = (case num_of a of None \<Rightarrow> Inl TypeError | Some x \<Rightarrow> Inr (if n > x then PInt n else a))"

definition min_int :: "pyval \<Rightarrow> int \<Rightarrow> exn + pyval" where
  "min_int a n = (case num_of a of None \<Rightarrow> Inl TypeError | Some x \<Rightarrow> Inr (if n < x then PInt n else a))"

text \<open>\<^verbatim>\<open>v not in (None, [])\<close>\<close>

definition kept :: "pyval \<Rightarrow> bool" where
  "kept v = (v \<noteq> PNone \<and> v \<noteq> PList [])"

text \<open>
  The body of the loop of \<^verbatim>\<open>transform_data\<close>: the dict display, evaluated entry by
  entry in the order of the source, then the comprehension that drops the empty values.
  \<open>now\<close> is what \<^verbatim>\<open>datetime.utcnow()\<close> returns for this item.
\<close>

definition transform_item :: "(string \<Rightarrow> datetime option) \<Rightarrow> datetime \<Rightarrow> pyval \<Rightarrow> exn + pydict" where
  "transform_item strptime now item =
     bind_exn (py_get item ''id'' PNone) (\<lambda>ioc_id.
     bind_exn (getitem item ''ioc_value'') (\<lambda>indicator.
     bind_exn (getitem item ''ioc_type'') (\<lambda>ioc_type.
     bind_exn (py_get item ''threat_type'' PNone) (\<lambda>threat_type.
     bind_exn (getitem item ''malware'') (\<lambda>malware.
     bind_exn (py_get item ''malware_alias'' (PList [])) (\<lambda>malware_alias.
     bind_exn (bind_exn (py_get item ''first_seen_utc'' PNone) (parse_datetime strptime)) (\<lambda>first_seen.
     bind_exn (bind_exn (py_get item ''last_seen_utc'' PNone) (parse_datetime strptime)) (\<lambda>last_seen.
     bind_exn (bind_exn (bind_exn (py_get item ''confidence_level'' (PInt 50))
                 (\<lambda>c. max_int c 0)) (\<lambda>c. min_int c 100)) (\<lambda>confidence_level.
     bind_exn (py_get item ''reference'' (PList [])) (\<lambda>reference.
     bind_exn (py_get item ''tags'' (PList [])) (\<lambda>tags.
     Inr (filter (\<lambda>(k, v). kept v)
       [(''ioc_id'', ioc_id),
        (''indicator'', indicator),
        (''ioc_type'', ioc_type),
        (''threat_type'', threat_type),
        (''malware'', malware),
        (''malware_alias'', malware_alias),
        (''first_seen'', first_seen),
        (''last_seen'', last_seen),
        (''confidence_level'', confidence_level),
        (''reference'', reference),
        (''tags'', tags),
        (''etl_timestamp'', PDatetime now)]))))))))))))"

text \<open>
  The loop of \<^verbatim>\<open>transform_data\<close>. \<open>clock i\<close> is the reading of \<^verbatim>\<open>datetime.utcnow()\<close>
  while the item at position \<open>i\<close> is mapped. The handler of \<^verbatim>\<open>except Exception\<close>
  formats \<^verbatim>\<open>item.get('id')\<close>; when that raises, the exception leaves the function.
\<close>

fun transform_loop ::
  "(string \<Rightarrow> datetime option) \<Rightarrow> (nat \<Rightarrow> datetime) \<Rightarrow> nat \<Rightarrow> pydict list \<Rightarrow> pyval list
     \<Rightarrow> exn + pydict list" where
  "transform_loop strptime clock i transformed [] = Inr transformed"
| "transform_loop strptime clock i transformed (item # rest) =
     (case transform_item strptime (clock i) item of
        Inr doc \<Rightarrow> transform_loop strptime clock (Suc i) (transformed @ [doc]) rest
      | Inl e \<Rightarrow>
          (case py_get item ''id'' PNone of
             Inl e' \<Rightarrow> Inl e'
           | Inr _ \<Rightarrow> transform_loop strptime clock (Suc i) transformed rest))"

definition transform_data ::
  "(string \<Rightarrow> datetime option) \<Rightarrow> (nat \<Rightarrow> datetime) \<Rightarrow> pyval list \<Rightarrow> exn + pydict list" where
  "transform_data strptime clock raw_data = transform_loop strptime clock 0 [] raw_data"

section \<open>Loading\<close>

text \<open>
  One element of \<^verbatim>\<open>operations\<close>:
  \<^verbatim>\<open>UpdateOne({'indicator': v}, {'$set': doc}, upsert=True)\<close>.
\<close>

datatype update_one = UpdateOne (filter_indicator: pyval) (set_doc: pydict)

record bulk_result =
  upserted_count :: int
  modified_count :: int

text \<open>
  The document store is reached through \<^verbatim>\<open>pymongo\<close> only. Its calls are the fields of
  a driver over a store state \<open>'s\<close>; each call returns the new state and either its
  value or the exception it raised. \<open>mongo_client\<close> is \<^verbatim>\<open>MongoClient(Config.MONGO_URI)\<close>,
  \<open>get_collection\<close> is \<^verbatim>\<open>client[Config.MONGO_DB][Config.MONGO_COLLECTION]\<close>,
  \<open>index_information\<close> returns the keys of the dict the call returns, \<open>close\<close> is
  \<^verbatim>\<open>client.close()\<close>.
\<close>

record 's driver =
  mongo_client :: "'s \<Rightarrow> (exn + unit) \<times> 's"
  get_collection :: "'s \<Rightarrow> (exn + unit) \<times> 's"
  count_documents :: "'s \<Rightarrow> (exn + int) \<times> 's"
  index_information :: "'s \<Rightarrow> (exn + string list) \<times> 's"
  create_index :: "(string \<times> int) list \<Rightarrow> string \<Rightarrow> 's \<Rightarrow> (exn + unit) \<times> 's"
  bulk_write :: "update_one list \<Rightarrow> 's \<Rightarrow> (exn + bulk_result) \<times> 's"
  close :: "'s \<Rightarrow> 's"

text \<open>The calls made on the driver, in the order they are made.\<close>

datatype event =
    EClientFailed
  | EClient
  | EGetCollection
  | ECountDocuments
  | EIndexInformation
  | ECreateIndex string
  | EBulkWrite "update_one list"
  | EClose

definition indexes :: "(string \<times> (string \<times> int) list) list" where
  "indexes =
     [(''indicator_1'', [(''indicator'', 1)]),
      (''ioc_type_1'', [(''ioc_type'', 1)]),
      (''malware_1'', [(''malware'', 1)])]"

text \<open>The loop that creates the missing indexes.\<close>

fun ensure_indexes ::
  "'s driver \<Rightarrow> (string \<times> (string \<times> int) list) list \<Rightarrow> 's \<Rightarrow> (exn + unit) \<times> 's \<times> event list" where
  "ensure_indexes d [] s = (Inr (), s, [])"
| "ensure_indexes d ((name, keys) # rest) s =
     (case index_information d s of
        (Inl e, s1) \<Rightarrow> (Inl e, s1, [EIndexInformation])
      | (Inr names, s1) \<Rightarrow>
          if name \<notin> set names then
            (case create_index d keys name s1 of
               (Inl e, s2) \<Rightarrow> (Inl e, s2, [EIndexInformation, ECreateIndex name])
             | (Inr _, s2) \<Rightarrow>
                 (case ensure_indexes d rest s2 of
                    (r, s3, tr) \<Rightarrow> (r, s3, EIndexInformation # ECreateIndex name # tr)))
          else
            (case ensure_indexes d rest s1 of
               (r, s3, tr) \<Rightarrow> (r, s3, EIndexInformation # tr)))"

text \<open>The list comprehension that builds \<^verbatim>\<open>operations\<close>; \<^verbatim>\<open>doc['indicator']\<close> may raise.\<close>

fun operations :: "pydict list \<Rightarrow> exn + update_one list" where
  "operations [] = Inr []"
| "operations (doc # docs) =
     (case getitem (PDict doc) ''indicator'' of
        Inl e \<Rightarrow> Inl e
      | Inr v \<Rightarrow>
          (case operations docs of
             Inl e \<Rightarrow> Inl e
           | Inr ops \<Rightarrow> Inr (UpdateOne v doc # ops)))"

definition verify_mongodb_insert :: "'s driver \<Rightarrow> int \<Rightarrow> 's \<Rightarrow> (exn + unit) \<times> 's \<times> event list" where
  "verify_mongodb_insert d expected_count s =
     (case count_documents d s of
        (Inl e, s1) \<Rightarrow> (Inl e, s1, [ECountDocuments])
      | (Inr actual_count, s1) \<Rightarrow>
          (if actual_count < expected_count then Inl ValueError else Inr (), s1, [ECountDocuments]))"

text \<open>
  The \<^verbatim>\<open>try\<close> block of \<^verbatim>\<open>load_data\<close> after the client has been created: it returns
  \<^verbatim>\<open>True\<close> or raises.
\<close>

definition load_body :: "'s driver \<Rightarrow> pydict list \<Rightarrow> 's \<Rightarrow> (exn + bool) \<times> 's \<times> event list" where
  "load_body d transformed_data s =
     (case get_collection d s of
        (Inl e, s1) \<Rightarrow> (Inl e, s1, [EGetCollection])
      | (Inr _, s1) \<Rightarrow>
     (case count_documents d s1 of
        (Inl e, s2) \<Rightarrow> (Inl e, s2, [EGetCollection, ECountDocuments])
      | (Inr initial_count, s2) \<Rightarrow>
     (case ensure_indexes d indexes s2 of
        (Inl e, s3, tr) \<Rightarrow> (Inl e, s3, [EGetCollection, ECountDocuments] @ tr)
      | (Inr _, s3, tr) \<Rightarrow>
     (case operations transformed_data of
        Inl e \<Rightarrow> (Inl e, s3, [EGetCollection, ECountDocuments] @ tr)
      | Inr ops \<Rightarrow>
     (case bulk_write d ops s3 of
        (Inl e, s4) \<Rightarrow> (Inl e, s4, [EGetCollection, ECountDocuments] @ tr @ [EBulkWrite ops])
      | (Inr result, s4) \<Rightarrow>
     (case verify_mongodb_insert d (initial_count + upserted_count result) s4 of
        (Inl e, s5, tr') \<Rightarrow>
          (Inl e, s5, [EGetCollection, ECountDocuments] @ tr @ [EBulkWrite ops] @ tr')
      | (Inr _, s5, tr') \<Rightarrow>
          (Inr True, s5, [EGetCollection, ECountDocuments] @ tr @ [EBulkWrite ops] @ tr')))))))"

text \<open>
  \<^verbatim>\<open>load_data\<close>: the result is the value returned or the exception that leaves the
  function, with the state of the store and the calls made.
  When \<^verbatim>\<open>MongoClient(...)\<close> raises, the handler reaches \<^verbatim>\<open>return False\<close>, and the
  \<^verbatim>\<open>finally\<close> clause then evaluates \<^verbatim>\<open>client.close()\<close> with the local variable
  \<^verbatim>\<open>client\<close> never assigned: \<^verbatim>\<open>UnboundLocalError\<close> replaces the pending return.
\<close>

definition load_data :: "'s driver \<Rightarrow> pydict list \<Rightarrow> 's \<Rightarrow> (exn + bool) \<times> 's \<times> event list" where
  "load_data d transformed_data s =
     (if transformed_data = [] then (Inr False, s, [])
      else
        (case mongo_client d s of
           (Inl e, s1) \<Rightarrow> (Inl UnboundLocalError, s1, [EClientFailed])
         | (Inr _, s1) \<Rightarrow>
             (case load_body d transformed_data s1 of
                (Inl e, s2, tr) \<Rightarrow> (Inr False, close d s2, EClient # tr @ [EClose])
              | (Inr ok, s2, tr) \<Rightarrow> (Inr ok, close d s2, EClient # tr @ [EClose]))))"

section \<open>Orchestration\<close>

datatype stage = Extract | Transform | Load

text \<open>
  \<^verbatim>\<open>run_etl\<close>, with everything the run reads from outside as arguments: the outcome
  of the request, the timestamp parser, the clock, the driver and the store.
  The result is the value returned and the stages that were invoked.
\<close>

definition run_etl ::
  "exn + response \<Rightarrow> (string \<Rightarrow> datetime option) \<Rightarrow> (nat \<Rightarrow> datetime) \<Rightarrow> 's driver \<Rightarrow> 's
     \<Rightarrow> bool \<times> stage list" where
  "run_etl got strptime clock d s =
     (let raw_data = extract_data got in
      if raw_data = [] then (False, [Extract])
      else
        (case transform_data strptime clock raw_data of
           Inl e \<Rightarrow> (False, [Extract, Transform])
         | Inr transformed_data \<Rightarrow>
             if transformed_data = [] then (False, [Extract, Transform])
             else
               (case fst (load_data d transformed_data s) of
                  Inl e \<Rightarrow> (False, [Extract, Transform, Load])
                | Inr success \<Rightarrow> (success, [Extract, Transform, Load]))))"

section \<open>The update the loader sends, on a store held in memory\<close>

text \<open>
  What \<^verbatim>\<open>UpdateOne(filter, {'$set': doc}, upsert=True)\<close> does to a collection is the
  store's part, not the repository's. This is its documented behaviour on a collection
  held as a list of documents: the first document that the filter matches gets every
  field of \<open>doc\<close> set (a field it has is overwritten in place, a field it lacks is
  added) and is counted as modified when that changed it; when no document matches, a
  new one is inserted, made of the filter's field and the fields of \<open>doc\<close>, and is counted
  as upserted. Which documents the filter \<^verbatim>\<open>{'indicator': v}\<close> matches is the
  parameter \<open>matches\<close>. The \<^verbatim>\<open>_id\<close> field the store adds is left out.
\<close>

fun set_field :: "string \<Rightarrow> pyval \<Rightarrow> pydict \<Rightarrow> pydict" where
  "set_field k v [] = [(k, v)]"
| "set_field k v ((k', v') # kvs) =
     (if k = k' then (k, v) # kvs else (k', v') # set_field k v kvs)"

fun apply_set :: "pydict \<Rightarrow> pydict \<Rightarrow> pydict" where
  "apply_set [] stored = stored"
| "apply_set ((k, v) # doc) stored = apply_set doc (set_field k v stored)"

fun upsert_one ::
  "(pyval \<Rightarrow> pydict \<Rightarrow> bool) \<Rightarrow> update_one \<Rightarrow> pydict list \<Rightarrow> pydict list \<times> bulk_result" where
  "upsert_one matches (UpdateOne v doc) [] =
     ([apply_set doc [(''indicator'', v)]], \<lparr>upserted_count = 1, modified_count = 0\<rparr>)"
| "upsert_one matches (UpdateOne v doc) (stored # coll) =
     (if matches v stored then
        (apply_set doc stored # coll,
         \<lparr>upserted_count = 0, modified_count = (if apply_set doc stored = stored then 0 else 1)\<rparr>)
      else
        (case upsert_one matches (UpdateOne v doc) coll of
           (coll', r) \<Rightarrow> (stored # coll', r)))"

text \<open>\<^verbatim>\<open>bulk_write\<close> applies the operations in order and adds up the counts.\<close>

fun apply_bulk ::
  "(pyval \<Rightarrow> pydict \<Rightarrow> bool) \<Rightarrow> update_one list \<Rightarrow> pydict list \<Rightarrow> pydict list \<times> bulk_result" where
  "apply_bulk matches [] coll = (coll, \<lparr>upserted_count = 0, modified_count = 0\<rparr>)"
| "apply_bulk matches (op # ops) coll =
     (case upsert_one matches op coll of
        (coll1, r1) \<Rightarrow>
          (case apply_bulk matches ops coll1 of
             (coll2, r2) \<Rightarrow>
               (coll2, \<lparr>upserted_count = upserted_count r1 + upserted_count r2,
                        modified_count = modified_count r1 + modified_count r2\<rparr>)))"

record store =
  documents :: "pydict list"
  index_names :: "string list"
  client_open :: bool

text \<open>A driver over the store in memory; none of its calls raises.\<close>

definition memory_driver :: "(pyval \<Rightarrow> pydict \<Rightarrow> bool) \<Rightarrow> store driver" where
  "memory_driver matches =
     \<lparr>mongo_client = (\<lambda>s. (Inr (), s\<lparr>client_open := True\<rparr>)),
      get_collection = (\<lambda>s. (Inr (), s)),
      count_documents = (\<lambda>s. (Inr (int (length (documents s))), s)),
      index_information = (\<lambda>s. (Inr (index_names s), s)),
      create_index = (\<lambda>keys name s. (Inr (), s\<lparr>index_names := index_names s @ [name]\<rparr>)),
      bulk_write = (\<lambda>ops s.
        (case apply_bulk matches ops (documents s) of
           (coll, r) \<Rightarrow> (Inr r, s\<lparr>documents := coll\<rparr>))),
      close = (\<lambda>s. s\<lparr>client_open := False\<rparr>)\<rparr>"

text \<open>The filter \<^verbatim>\<open>{'indicator': v}\<close> on documents whose \<open>indicator\<close> is a string.\<close>

definition indicator_is :: "pyval \<Rightarrow> pydict \<Rightarrow> bool" where
  "indicator_is v stored = (map_of stored ''indicator'' = Some v)"

section \<open>The validator as the specification words it\<close>

text \<open>
  The four reasons for which the specification lets \<^verbatim>\<open>validate_ioc\<close> fail, on a record
  given as a dict: a required field is absent; \<open>ioc_value\<close> is not a text value that is
  non-empty after trimming; \<open>ioc_type\<close> is \<open>domain\<close> and \<open>ioc_value\<close> has no dot;
  \<open>confidence_level\<close> is present and is not a number of the interval from 0 to 100
  (a value that is no number at all lies outside the interval).
\<close>

definition spec_rejects :: "pydict \<Rightarrow> bool" where
  "spec_rejects r =
     ((\<exists>f \<in> set [''ioc_value'', ''ioc_type'', ''malware'']. map_of r f = None)
      \<or> (case map_of r ''ioc_value'' of Some (PStr s) \<Rightarrow> strip s = [] | _ \<Rightarrow> True)
      \<or> (map_of r ''ioc_type'' = Some (PStr ''domain'')
           \<and> (case map_of r ''ioc_value'' of Some (PStr s) \<Rightarrow> CHR ''.'' \<notin> set s | _ \<Rightarrow> True))
      \<or> (case map_of r ''confidence_level'' of
            None \<Rightarrow> False
          | Some c \<Rightarrow> (case num_of c of None \<Rightarrow> True | Some n \<Rightarrow> n < 0 \<or> 100 < n)))"

section \<open>Auxiliary notions\<close>

text \<open>The dict display of \<^verbatim>\<open>transform_data\<close> before the empty values are dropped.\<close>

definition doc_of ::
  "pyval \<Rightarrow> pyval \<Rightarrow> pyval \<Rightarrow> pyval \<Rightarrow> pyval \<Rightarrow> pyval \<Rightarrow> pyval \<Rightarrow> pyval \<Rightarrow> pyval \<Rightarrow> pyval \<Rightarrow> pyval \<Rightarrow> datetime \<Rightarrow> pydict" where
  "doc_of a b c d e f g h i j k now =
       [(''ioc_id'', a),
        (''indicator'', b),
        (''ioc_type'', c),
        (''threat_type'', d),
        (''malware'', e),
        (''malware_alias'', f),
        (''first_seen'', g),
        (''last_seen'', h),
        (''confidence_level'', i),
        (''reference'', j),
        (''tags'', k),
        (''etl_timestamp'', PDatetime now)]"

text \<open>
  The data model gives \<^verbatim>\<open>first_seen_utc\<close> and \<^verbatim>\<open>last_seen_utc\<close> as timestamp strings.
  A field of a record fits that when it is absent, is a string, or is a value that
  \<^verbatim>\<open>parse_datetime\<close> passes over without parsing (\<^verbatim>\<open>null\<close> and the other false values).
\<close>

definition timestamp_text :: "pyval option \<Rightarrow> bool" where
  "timestamp_text x =
     (case x of None \<Rightarrow> True | Some v \<Rightarrow> (case v of PStr s \<Rightarrow> True | _ \<Rightarrow> \<not> truthy v))"

text \<open>
  The records the loop body of \<^verbatim>\<open>transform_data\<close> maps without raising: the three
  fields it reads with a subscript are present, the two timestamps are text in the sense
  above, and \<open>confidence_level\<close> is absent or a number.
\<close>

definition mappable :: "pydict \<Rightarrow> bool" where
  "mappable r =
     (map_of r ''ioc_value'' \<noteq> None \<and> map_of r ''ioc_type'' \<noteq> None
      \<and> map_of r ''malware'' \<noteq> None
      \<and> timestamp_text (map_of r ''first_seen_utc'')
      \<and> timestamp_text (map_of r ''last_seen_utc'')
      \<and> (case map_of r ''confidence_level'' of None \<Rightarrow> True | Some c \<Rightarrow> num_of c \<noteq> None))"

text \<open>The records of a feed: the elements of the lists among the values of the envelope.\<close>

definition feed_records :: "(string \<times> pyval) list \<Rightarrow> pyval list" where
  "feed_records groups =
     concat (map (\<lambda>(key, items). case items of PList xs \<Rightarrow> xs | _ \<Rightarrow> []) groups)"

section \<open>Example inputs\<close>

text \<open>
  The record of the end-to-end scenario of the specification, records with a confidence of
  75, of \<^verbatim>\<open>null\<close>, of \<open>-10\<close> and without one, feeds made of them, and the documents
  the transformer makes of them when no timestamp parses and the clock stands still.
\<close>

definition evil_com :: pydict where
  "evil_com =
     [(''id'', PInt 1), (''ioc_value'', PStr ''evil.com''), (''ioc_type'', PStr ''domain''),
      (''malware'', PStr ''X''), (''confidence_level'', PInt 150)]"

definition benign_record :: pydict where
  "benign_record =
     [(''id'', PInt 2), (''ioc_value'', PStr ''bad.example''), (''ioc_type'', PStr ''domain''),
      (''malware'', PStr ''Y''), (''confidence_level'', PInt 75),
      (''first_seen_utc'', PStr ''yesterday'')]"

definition null_confidence_record :: pydict where
  "null_confidence_record =
     [(''id'', PInt 3), (''ioc_value'', PStr ''worse.example''), (''ioc_type'', PStr ''domain''),
      (''malware'', PStr ''Z''), (''confidence_level'', PNone)]"

definition padded_record :: pydict where
  "padded_record =
     [(''id'', PInt 4), (''ioc_value'', PStr '' evil.com ''), (''ioc_type'', PStr ''domain''),
      (''malware'', PStr ''X'')]"

definition distrusted_record :: pydict where
  "distrusted_record =
     [(''id'', PInt 5), (''ioc_value'', PStr ''10.0.0.1''), (''ioc_type'', PStr ''ip:port''),
      (''malware'', PStr ''W''), (''confidence_level'', PInt (- 10))]"

text \<open>A record that validates and gives \<open>first_seen_utc\<close> as a number of seconds.\<close>

definition epoch_record :: pydict where
  "epoch_record =
     [(''id'', PInt 6), (''ioc_value'', PStr ''late.example''), (''ioc_type'', PStr ''domain''),
      (''malware'', PStr ''V''), (''confidence_level'', PInt 80),
      (''first_seen_utc'', PInt 1700000000)]"

definition mixed_feed :: response where
  "mixed_feed =
     \<lparr>status_code = 200, text_body = [],
      json_body = Some (PDict [(''2024-01-01'',
                                 PList [PDict benign_record, PDict null_confidence_record])])\<rparr>"

definition benign_feed :: response where
  "benign_feed =
     \<lparr>status_code = 200, text_body = [],
      json_body = Some (PDict [(''2024-01-01'', PList [PDict benign_record])])\<rparr>"

definition no_parse :: "string \<Rightarrow> datetime option" where
  "no_parse s = None"

definition midnight :: "nat \<Rightarrow> datetime" where
  "midnight i = Datetime 2024 1 1 0 0 0 0"

definition benign_doc :: pydict where
  "benign_doc =
     [(''ioc_id'', PInt 2), (''indicator'', PStr ''bad.example''), (''ioc_type'', PStr ''domain''),
      (''malware'', PStr ''Y''), (''confidence_level'', PInt 75),
      (''etl_timestamp'', PDatetime (Datetime 2024 1 1 0 0 0 0))]"

definition evil_com_doc :: pydict where
  "evil_com_doc =
     [(''ioc_id'', PInt 1), (''indicator'', PStr ''evil.com''), (''ioc_type'', PStr ''domain''),
      (''malware'', PStr ''X''), (''confidence_level'', PInt 100),
      (''etl_timestamp'', PDatetime (Datetime 2024 1 1 0 0 0 0))]"

definition distrusted_doc :: pydict where
  "distrusted_doc =
     [(''ioc_id'', PInt 5), (''indicator'', PStr ''10.0.0.1''), (''ioc_type'', PStr ''ip:port''),
      (''malware'', PStr ''W''), (''confidence_level'', PInt 0),
      (''etl_timestamp'', PDatetime (Datetime 2024 1 1 0 0 0 0))]"

definition padded_doc :: pydict where
  "padded_doc =
     [(''ioc_id'', PInt 4), (''indicator'', PStr '' evil.com ''), (''ioc_type'', PStr ''domain''),
      (''malware'', PStr ''X''), (''confidence_level'', PInt 50),
      (''etl_timestamp'', PDatetime (Datetime 2024 1 1 0 0 0 0))]"

text \<open>
  Stores: an empty one, and one that already holds a document under the indicator of
  \<open>benign_doc\<close>, with a \<open>first_seen\<close> that \<open>benign_doc\<close> lacks. \<open>refusing_driver\<close> is
  a driver whose \<^verbatim>\<open>MongoClient(...)\<close> raises, as it does on a connection string it cannot
  use.
\<close>

definition empty_store :: store where
  "empty_store = \<lparr>documents = [], index_names = [], client_open = False\<rparr>"

definition stored_doc :: pydict where
  "stored_doc =
     [(''indicator'', PStr ''bad.example''), (''malware'', PStr ''Old''),
      (''first_seen'', PDatetime (Datetime 2023 12 31 8 0 0 0))]"

definition used_store :: store where
  "used_store = \<lparr>documents = [stored_doc], index_names = [''indicator_1''], client_open = False\<rparr>"

definition refusing_driver :: "store driver" where
  "refusing_driver =
     (memory_driver indicator_is)\<lparr>mongo_client := (\<lambda>s. (Inl (External ''ConfigurationError''), s))\<rparr>"

section \<open>Validation: results\<close>

lemma in_keys: "(k \<in> fst ` set r) = (map_of r k \<noteq> None)"
  by (simp add: map_of_eq_None_iff)

lemma check_required_dict:
  "check_required (PDict r) fs =
     (if \<forall>f \<in> set fs. map_of r f \<noteq> None then Inr () else Inl ValueError)"
  by (induction fs) (auto simp: in_keys split: bool.splits)

lemma validate_ioc_accepts_iff: "(validate_ioc (PDict r) = Inr ()) = (\<not> spec_rejects r)"
  unfolding validate_ioc_def spec_rejects_def check_required_dict required_fields_def
  by (auto simp: in_keys is_blank_or_not_str_def lacks_dot_def in_0_100_def
      split: option.splits pyval.splits sum.splits bool.splits)

text \<open>
  C4. On every record (a dict), \<^verbatim>\<open>validate_ioc\<close> raises exactly when one of the four
  reasons of the specification holds, and returns normally otherwise. A
  \<open>confidence_level\<close> that is no number counts as lying outside the interval: the
  comparison raises \<^verbatim>\<open>TypeError\<close> on it.
\<close>

theorem validate_ioc_fails_iff_spec:
  "((\<exists>e. validate_ioc (PDict r) = Inl e) = spec_rejects r)
   \<and> ((validate_ioc (PDict r) = Inr ()) = (\<not> spec_rejects r))"
proof -
  have "(\<exists>e. validate_ioc (PDict r) = Inl e) = (validate_ioc (PDict r) \<noteq> Inr ())"
    by (cases "validate_ioc (PDict r)") auto
  then show ?thesis
    using validate_ioc_accepts_iff [of r] by simp
qed

theorem validate_ioc_fails_iff_spec_witness:
  "spec_rejects evil_com \<and> (\<exists>e. validate_ioc (PDict evil_com) = Inl e)
   \<and> \<not> spec_rejects benign_record \<and> validate_ioc (PDict benign_record) = Inr ()"
proof -
  have "spec_rejects evil_com"
    by (simp add: spec_rejects_def evil_com_def)
  moreover have "\<not> spec_rejects benign_record"
    by (simp add: spec_rejects_def benign_record_def strip_def is_space_def)
  ultimately show ?thesis
    using validate_ioc_fails_iff_spec [of evil_com] validate_ioc_fails_iff_spec [of benign_record]
    by simp
qed

text \<open>What a record that validates is known to hold.\<close>

lemma validate_ioc_dict: "validate_ioc x = Inr () \<Longrightarrow> \<exists>r. x = PDict r"
proof (cases x)
  case (PList xs)
  assume "validate_ioc x = Inr ()"
  with PList show ?thesis
    by (auto simp: validate_ioc_def split: sum.splits)
next
  case (PStr s)
  assume "validate_ioc x = Inr ()"
  with PStr show ?thesis
    by (auto simp: validate_ioc_def split: sum.splits)
qed (auto simp: validate_ioc_def required_fields_def)

lemma validate_ioc_fields:
  assumes "validate_ioc (PDict r) = Inr ()"
  shows "\<exists>v t m. map_of r ''ioc_value'' = Some v \<and> map_of r ''ioc_type'' = Some t
           \<and> map_of r ''malware'' = Some m
           \<and> (\<forall>c. map_of r ''confidence_level'' = Some c \<longrightarrow> (\<exists>n. num_of c = Some n))"
  using assms unfolding validate_ioc_def check_required_dict required_fields_def
  by (auto simp: in_keys in_0_100_def split: option.splits sum.splits bool.splits if_splits)

lemma valid_benign: "validate_ioc (PDict benign_record) = Inr ()"
  by (simp add: validate_ioc_def benign_record_def required_fields_def is_blank_or_not_str_def
      strip_def is_space_def lacks_dot_def in_0_100_def)

lemma invalid_null: "validate_ioc (PDict null_confidence_record) = Inl TypeError"
  by (simp add: validate_ioc_def null_confidence_record_def required_fields_def is_blank_or_not_str_def
      strip_def is_space_def lacks_dot_def in_0_100_def)

section \<open>Extraction: results\<close>

text \<open>Everything the extractor returns has passed \<^verbatim>\<open>validate_ioc\<close>.\<close>

lemma collect_iocs_valid:
  "collect_iocs acc xs = Inr out \<Longrightarrow> \<forall>x \<in> set acc. validate_ioc x = Inr () \<Longrightarrow>
   \<forall>x \<in> set out. validate_ioc x = Inr ()"
proof (induction xs arbitrary: acc)
  case Nil
  then show ?case by simp
next
  case (Cons x xs)
  show ?case
  proof (cases "validate_ioc x")
    case (Inr u)
    with Cons.prems have "collect_iocs (acc @ [x]) xs = Inr out"
      and "\<forall>y \<in> set (acc @ [x]). validate_ioc y = Inr ()" by auto
    then show ?thesis by (rule Cons.IH)
  next
    case (Inl e)
    with Cons.prems have "collect_iocs acc xs = Inr out"
      by (cases e) simp_all
    from Cons.IH [OF this Cons.prems(2)] show ?thesis .
  qed
qed

lemma collect_groups_valid:
  "collect_groups acc groups = Inr out \<Longrightarrow> \<forall>x \<in> set acc. validate_ioc x = Inr () \<Longrightarrow>
   \<forall>x \<in> set out. validate_ioc x = Inr ()"
proof (induction groups arbitrary: acc)
  case Nil
  then show ?case by simp
next
  case (Cons g groups)
  obtain key items where g: "g = (key, items)" by (cases g)
  show ?case
  proof (cases items)
    case (PList xs)
    with Cons.prems g obtain acc' where a: "collect_iocs acc xs = Inr acc'"
      and c: "collect_groups acc' groups = Inr out"
      by (auto split: sum.splits)
    from collect_iocs_valid [OF a Cons.prems(2)] have "\<forall>x \<in> set acc'. validate_ioc x = Inr ()" .
    from Cons.IH [OF c this] show ?thesis .
  qed (use Cons g in auto)
qed

lemma extract_data_valid: "\<forall>x \<in> set (extract_data got). validate_ioc x = Inr ()"
proof (cases "extract_body got")
  case (Inl e)
  then show ?thesis by (simp add: extract_data_def)
next
  case (Inr iocs)
  then obtain groups where "collect_groups [] groups = Inr iocs"
    by (auto simp: extract_body_def split: sum.splits)
  from collect_groups_valid [OF this] Inr show ?thesis
    by (simp add: extract_data_def)
qed

text \<open>
  As long as the records of a feed fail with \<^verbatim>\<open>ValueError\<close> only, the extractor returns
  every valid record of the feed, in order.
\<close>

lemma collect_iocs_value_errors_only:
  "\<forall>x \<in> set xs. validate_ioc x = Inr () \<or> validate_ioc x = Inl ValueError \<Longrightarrow>
   collect_iocs acc xs = Inr (acc @ filter (\<lambda>x. validate_ioc x = Inr ()) xs)"
  by (induction xs arbitrary: acc) auto

lemma collect_groups_value_errors_only:
  "\<forall>x \<in> set (feed_records groups). validate_ioc x = Inr () \<or> validate_ioc x = Inl ValueError \<Longrightarrow>
   collect_groups acc groups = Inr (acc @ filter (\<lambda>x. validate_ioc x = Inr ()) (feed_records groups))"
proof (induction groups arbitrary: acc)
  case Nil
  then show ?case by (simp add: feed_records_def)
next
  case (Cons g groups)
  obtain key items where g: "g = (key, items)" by (cases g)
  from Cons.prems have rest:
    "\<forall>x \<in> set (feed_records groups). validate_ioc x = Inr () \<or> validate_ioc x = Inl ValueError"
    by (simp add: feed_records_def)
  show ?case
  proof (cases items)
    case (PList xs)
    with Cons.prems g have
      "\<forall>x \<in> set xs. validate_ioc x = Inr () \<or> validate_ioc x = Inl ValueError"
      by (simp add: feed_records_def)
    from collect_iocs_value_errors_only [OF this] Cons.IH [OF rest] g PList
    show ?thesis by (simp add: feed_records_def)
  qed (use Cons.IH [OF rest] g in \<open>simp_all add: feed_records_def\<close>)
qed

lemma extract_data_value_errors_only:
  assumes "validate_response resp = Inr (PDict groups)"
    and "\<forall>x \<in> set (feed_records groups). validate_ioc x = Inr () \<or> validate_ioc x = Inl ValueError"
  shows "extract_data (Inr resp) = filter (\<lambda>x. validate_ioc x = Inr ()) (feed_records groups)"
  using assms(1) collect_groups_value_errors_only [OF assms(2), of "[]"]
  by (simp add: extract_data_def extract_body_def py_items_def)

lemma extract_benign_feed: "extract_data (Inr benign_feed) = [PDict benign_record]"
  by (simp add: extract_data_def extract_body_def validate_response_def benign_feed_def py_items_def
      valid_benign)

text \<open>
  C1. Every record that passes \<^verbatim>\<open>validate_ioc\<close> is in the output of the extractor,
  whatever the other records of the feed are. The code does not do that: the loop catches
  \<^verbatim>\<open>ValueError\<close> only, and \<^verbatim>\<open>validate_ioc\<close> raises \<^verbatim>\<open>TypeError\<close> on a record whose
  \<open>confidence_level\<close> is \<^verbatim>\<open>null\<close>. The feed below is accepted as an envelope and holds
  one valid record and one such record; the \<^verbatim>\<open>TypeError\<close> reaches the outer handler and
  the extractor returns the empty list.
\<close>

theorem extract_data_loses_valid_record:
  "validate_response mixed_feed =
     Inr (PDict [(''2024-01-01'', PList [PDict benign_record, PDict null_confidence_record])])
   \<and> validate_ioc (PDict benign_record) = Inr ()
   \<and> validate_ioc (PDict null_confidence_record) = Inl TypeError
   \<and> extract_data (Inr mixed_feed) = []"
  by (simp add: extract_data_def extract_body_def validate_response_def mixed_feed_def py_items_def
      valid_benign invalid_null)

section \<open>Transformation: results\<close>

lemma bind_exn_Inr_iff: "(bind_exn m f = Inr y) = (\<exists>x. m = Inr x \<and> f x = Inr y)"
  by (cases m) (simp_all add: bind_exn_def)

lemma bind_exn_Inr [simp]: "bind_exn (Inr x) f = f x"
  by (simp add: bind_exn_def)

lemma bind_exn_Inl [simp]: "bind_exn (Inl e) f = Inl e"
  by (simp add: bind_exn_def)

lemma map_of_filter_distinct:
  "distinct (map fst xs) \<Longrightarrow>
   map_of (filter (\<lambda>(k, v). Q v) xs) k =
     (case map_of xs k of None \<Rightarrow> None | Some v \<Rightarrow> if Q v then Some v else None)"
proof (induction xs)
  case Nil
  then show ?case by simp
next
  case (Cons x xs)
  obtain k' v' where x: "x = (k', v')" by (cases x)
  show ?case
  proof (cases "k' = k")
    case True
    with Cons.prems x have "map_of xs k = None"
      by (simp add: map_of_eq_None_iff)
    with Cons x True show ?thesis by simp
  next
    case False
    with Cons x show ?thesis by simp
  qed
qed

lemma distinct_doc_of: "distinct (map fst (doc_of a b c d e f g h i j k now))"
  by (simp add: doc_of_def)

lemma map_of_doc_of_confidence:
  "map_of (doc_of a b c d e f g h i j k now) ''confidence_level'' = Some i"
  by (simp add: doc_of_def)

lemma map_of_doc_of_indicator:
  "map_of (doc_of a b c d e f g h i j k now) ''indicator'' = Some b"
  by (simp add: doc_of_def)

lemma map_of_doc_of_first_seen:
  "map_of (doc_of a b c d e f g h i j k now) ''first_seen'' = Some g"
  by (simp add: doc_of_def)

lemma map_of_doc_of_last_seen:
  "map_of (doc_of a b c d e f g h i j k now) ''last_seen'' = Some h"
  by (simp add: doc_of_def)

text \<open>A document is produced only when every entry of the dict display evaluates.\<close>

lemma transform_item_cases:
  assumes "transform_item strptime now item = Inr doc"
  obtains a b c d e f g h i j k where
    "py_get item ''id'' PNone = Inr a"
    "getitem item ''ioc_value'' = Inr b"
    "getitem item ''ioc_type'' = Inr c"
    "py_get item ''threat_type'' PNone = Inr d"
    "getitem item ''malware'' = Inr e"
    "py_get item ''malware_alias'' (PList []) = Inr f"
    "bind_exn (py_get item ''first_seen_utc'' PNone) (parse_datetime strptime) = Inr g"
    "bind_exn (py_get item ''last_seen_utc'' PNone) (parse_datetime strptime) = Inr h"
    "bind_exn (bind_exn (py_get item ''confidence_level'' (PInt 50)) (\<lambda>c. max_int c 0)) (\<lambda>c. min_int c 100) = Inr i"
    "py_get item ''reference'' (PList []) = Inr j"
    "py_get item ''tags'' (PList []) = Inr k"
    "doc = filter (\<lambda>(k, v). kept v) (doc_of a b c d e f g h i j k now)"
  using assms unfolding transform_item_def doc_of_def bind_exn_Inr_iff
  by blast

lemma transform_item_kept:
  assumes "transform_item strptime now item = Inr doc"
  shows "\<forall>(k, v) \<in> set doc. v \<noteq> PNone \<and> v \<noteq> PList []"
  using assms by (elim transform_item_cases) (auto simp: kept_def)

lemma transform_item_timestamp:
  assumes "transform_item strptime now item = Inr doc"
  shows "map_of doc ''etl_timestamp'' = Some (PDatetime now)"
  using assms
  by (elim transform_item_cases)
     (simp add: map_of_filter_distinct distinct_doc_of, simp add: doc_of_def kept_def)

text \<open>
  The documents \<^verbatim>\<open>transform_data\<close> returns are the results of the loop body on the
  items, and each such result is returned.
\<close>

lemma transform_loop_sound:
  "transform_loop strptime clock i acc raw = Inr docs \<Longrightarrow> doc \<in> set docs \<Longrightarrow>
   doc \<in> set acc \<or> (\<exists>j < length raw. transform_item strptime (clock (i + j)) (raw ! j) = Inr doc)"
proof (induction raw arbitrary: i acc)
  case Nil
  then show ?case by simp
next
  case (Cons item rest)
  show ?case
  proof (cases "transform_item strptime (clock i) item")
    case (Inr d)
    with Cons.prems have "transform_loop strptime clock (Suc i) (acc @ [d]) rest = Inr docs"
      by simp
    from Cons.IH [OF this Cons.prems(2)]
    consider "doc \<in> set acc" | "doc = d"
      | j where "j < length rest" "transform_item strptime (clock (Suc i + j)) (rest ! j) = Inr doc"
      by auto
    then show ?thesis
    proof cases
      case 1
      then show ?thesis by simp
    next
      case 2
      with Inr have "0 < length (item # rest) \<and> transform_item strptime (clock (i + 0)) ((item # rest) ! 0) = Inr doc"
        by simp
      then show ?thesis by blast
    next
      case 3
      then have "Suc j < length (item # rest) \<and> transform_item strptime (clock (i + Suc j)) ((item # rest) ! Suc j) = Inr doc"
        by simp
      then show ?thesis by blast
    qed
  next
    case (Inl e)
    with Cons.prems have "transform_loop strptime clock (Suc i) acc rest = Inr docs"
      by (simp split: sum.splits)
    from Cons.IH [OF this Cons.prems(2)]
    consider "doc \<in> set acc"
      | j where "j < length rest" "transform_item strptime (clock (Suc i + j)) (rest ! j) = Inr doc"
      by auto
    then show ?thesis
    proof cases
      case 1
      then show ?thesis by simp
    next
      case 2
      then have "Suc j < length (item # rest) \<and> transform_item strptime (clock (i + Suc j)) ((item # rest) ! Suc j) = Inr doc"
        by simp
      then show ?thesis by blast
    qed
  qed
qed

lemma transform_loop_acc:
  "transform_loop strptime clock i acc raw = Inr docs \<Longrightarrow> set acc \<subseteq> set docs"
proof (induction raw arbitrary: i acc)
  case Nil
  then show ?case by simp
next
  case (Cons item rest)
  show ?case
  proof (cases "transform_item strptime (clock i) item")
    case (Inr d)
    with Cons.prems have "transform_loop strptime clock (Suc i) (acc @ [d]) rest = Inr docs"
      by simp
    from Cons.IH [OF this] show ?thesis by simp
  next
    case (Inl e)
    with Cons.prems have "transform_loop strptime clock (Suc i) acc rest = Inr docs"
      by (simp split: sum.splits)
    from Cons.IH [OF this] show ?thesis .
  qed
qed

lemma transform_loop_complete:
  "transform_loop strptime clock i acc raw = Inr docs \<Longrightarrow> j < length raw \<Longrightarrow>
   transform_item strptime (clock (i + j)) (raw ! j) = Inr doc \<Longrightarrow> doc \<in> set docs"
proof (induction raw arbitrary: i acc j)
  case Nil
  then show ?case by simp
next
  case (Cons item rest)
  show ?case
  proof (cases j)
    case 0
    with Cons.prems have "transform_loop strptime clock (Suc i) (acc @ [doc]) rest = Inr docs"
      by simp
    from transform_loop_acc [OF this] show ?thesis by simp
  next
    case (Suc j')
    with Cons.prems have j': "j' < length rest"
      and item: "transform_item strptime (clock (Suc i + j')) (rest ! j') = Inr doc"
      by simp_all
    show ?thesis
    proof (cases "transform_item strptime (clock i) item")
      case (Inr d)
      with Cons.prems have "transform_loop strptime clock (Suc i) (acc @ [d]) rest = Inr docs"
        by simp
      from Cons.IH [OF this j' item] show ?thesis .
    next
      case (Inl e)
      with Cons.prems have "transform_loop strptime clock (Suc i) acc rest = Inr docs"
        by (simp split: sum.splits)
      from Cons.IH [OF this j' item] show ?thesis .
    qed
  qed
qed

text \<open>On dicts the handler never raises, so the loop returns.\<close>

lemma transform_loop_dicts:
  "\<forall>x \<in> set raw. \<exists>r. x = PDict r \<Longrightarrow> \<exists>docs. transform_loop strptime clock i acc raw = Inr docs"
proof (induction raw arbitrary: i acc)
  case Nil
  then show ?case by simp
next
  case (Cons item rest)
  then obtain r where "item = PDict r" by auto
  with Cons show ?case
    by (cases "transform_item strptime (clock i) (PDict r)") simp_all
qed

lemma transform_data_after_extract:
  "\<exists>docs. transform_data strptime clock (extract_data got) = Inr docs"
  unfolding transform_data_def
  by (rule transform_loop_dicts) (use extract_data_valid validate_ioc_dict in blast)

lemma transform_benign: "transform_item no_parse (midnight i) (PDict benign_record) = Inr benign_doc"
  by (simp add: transform_item_def benign_record_def benign_doc_def parse_datetime_def no_parse_def
      midnight_def max_int_def min_int_def kept_def)

lemma transform_evil_com: "transform_item no_parse (midnight i) (PDict evil_com) = Inr evil_com_doc"
  by (simp add: transform_item_def evil_com_def evil_com_doc_def parse_datetime_def no_parse_def
      midnight_def max_int_def min_int_def kept_def)

lemma transform_distrusted: "transform_item no_parse (midnight i) (PDict distrusted_record) = Inr distrusted_doc"
  by (simp add: transform_item_def distrusted_record_def distrusted_doc_def parse_datetime_def no_parse_def
      midnight_def max_int_def min_int_def kept_def)

lemma transform_padded: "transform_item no_parse (midnight i) (PDict padded_record) = Inr padded_doc"
  by (simp add: transform_item_def padded_record_def padded_doc_def parse_datetime_def no_parse_def
      midnight_def max_int_def min_int_def kept_def)

lemma transform_three:
  "transform_data no_parse midnight [PDict evil_com, PDict distrusted_record, PDict padded_record]
     = Inr [evil_com_doc, distrusted_doc, padded_doc]"
  by (simp add: transform_data_def transform_evil_com transform_distrusted transform_padded)

text \<open>
  C5. Every document \<^verbatim>\<open>transform_data\<close> produces has no key with the value \<^verbatim>\<open>None\<close>
  or with an empty list (the sequences of the data model are lists), and has the key
  \<open>etl_timestamp\<close>.
\<close>

theorem transform_data_presence_reduction:
  assumes "transform_data strptime clock raw_data = Inr docs" and "doc \<in> set docs"
  shows "(\<forall>(k, v) \<in> set doc. v \<noteq> PNone \<and> v \<noteq> PList [])
       \<and> (\<exists>now. map_of doc ''etl_timestamp'' = Some (PDatetime now))"
proof -
  from transform_loop_sound [OF assms [unfolded transform_data_def]]
  obtain j where "transform_item strptime (clock (0 + j)) (raw_data ! j) = Inr doc"
    by auto
  from transform_item_kept [OF this] transform_item_timestamp [OF this]
  show ?thesis by blast
qed

theorem transform_data_presence_reduction_witness:
  "transform_data no_parse midnight [PDict benign_record] = Inr [benign_doc]
   \<and> map_of benign_doc ''first_seen'' = None
   \<and> (\<exists>now. map_of benign_doc ''etl_timestamp'' = Some (PDatetime now))"
  using transform_data_presence_reduction [of no_parse midnight "[PDict benign_record]" "[benign_doc]" benign_doc]
  by (simp add: transform_data_def transform_benign) (simp add: benign_doc_def)

lemma clamp_result:
  assumes "bind_exn (max_int c 0) (\<lambda>c. min_int c 100) = Inr i"
  shows "\<exists>n. num_of c = Some n \<and> num_of i = Some (min (max n 0) 100)
           \<and> (c = PInt n \<longrightarrow> i = PInt (min (max n 0) 100))
           \<and> (\<forall>b. c = PBool b \<longrightarrow> i = c) \<and> kept i"
  using assms
  by (cases c) (auto simp: max_int_def min_int_def kept_def split: if_splits)

lemma clamp_numeric:
  "num_of c = Some n \<Longrightarrow> \<exists>i. bind_exn (max_int c 0) (\<lambda>c. min_int c 100) = Inr i"
  by (cases c) (auto simp: max_int_def min_int_def)

lemma transform_item_confidence:
  assumes "transform_item strptime now (PDict r) = Inr doc"
  shows "(map_of r ''confidence_level'' = None \<longrightarrow> map_of doc ''confidence_level'' = Some (PInt 50))
       \<and> (\<forall>n. map_of r ''confidence_level'' = Some (PInt n) \<longrightarrow>
              map_of doc ''confidence_level'' = Some (PInt (min (max n 0) 100)))
       \<and> (\<forall>b. map_of r ''confidence_level'' = Some (PBool b) \<longrightarrow>
              map_of doc ''confidence_level'' = Some (PBool b))
       \<and> (\<forall>c. map_of r ''confidence_level'' = Some c \<longrightarrow> num_of c \<noteq> None)"
  using assms
proof (elim transform_item_cases)
  fix a b c d e f g h i j k
  assume conf: "bind_exn (bind_exn (py_get (PDict r) ''confidence_level'' (PInt 50)) (\<lambda>c. max_int c 0)) (\<lambda>c. min_int c 100) = Inr i"
    and doc: "doc = filter (\<lambda>(k, v). kept v) (doc_of a b c d e f g h i j k now)"
  define c0 where "c0 = (case map_of r ''confidence_level'' of None \<Rightarrow> PInt 50 | Some v \<Rightarrow> v)"
  from conf have "bind_exn (max_int c0 0) (\<lambda>c. min_int c 100) = Inr i"
    by (simp add: c0_def)
  from clamp_result [OF this] obtain n where n: "num_of c0 = Some n"
    "num_of i = Some (min (max n 0) 100)" "c0 = PInt n \<longrightarrow> i = PInt (min (max n 0) 100)"
    "\<forall>b. c0 = PBool b \<longrightarrow> i = c0" "kept i"
    by blast
  from doc n(5) have "map_of doc ''confidence_level'' = Some i"
    by (simp add: map_of_filter_distinct distinct_doc_of map_of_doc_of_confidence)
  with n show ?thesis
    by (auto simp: c0_def split: option.splits)
qed

lemma parse_datetime_failed:
  "strptime s = None \<Longrightarrow> parse_datetime strptime (PStr s) = Inr PNone"
  by (simp add: parse_datetime_def)

lemma parse_datetime_text:
  "timestamp_text (map_of r k) \<Longrightarrow>
   \<exists>v. bind_exn (py_get (PDict r) k PNone) (parse_datetime strptime) = Inr v"
  by (auto simp: timestamp_text_def parse_datetime_def split: option.splits pyval.splits)

lemma transform_item_first_seen_absent:
  assumes "transform_item strptime now (PDict r) = Inr doc"
    and "map_of r ''first_seen_utc'' = Some (PStr s)" and "strptime s = None"
  shows "map_of doc ''first_seen'' = None"
  using assms
  by (elim transform_item_cases)
     (auto simp: map_of_filter_distinct distinct_doc_of map_of_doc_of_first_seen kept_def
        parse_datetime_failed)

lemma transform_item_last_seen_absent:
  assumes "transform_item strptime now (PDict r) = Inr doc"
    and "map_of r ''last_seen_utc'' = Some (PStr s)" and "strptime s = None"
  shows "map_of doc ''last_seen'' = None"
  using assms
  by (elim transform_item_cases)
     (auto simp: map_of_filter_distinct distinct_doc_of map_of_doc_of_last_seen kept_def
        parse_datetime_failed)

lemma transform_item_validated:
  assumes "validate_ioc (PDict r) = Inr ()"
    and "timestamp_text (map_of r ''first_seen_utc'')"
    and "timestamp_text (map_of r ''last_seen_utc'')"
  shows "\<exists>doc. transform_item strptime now (PDict r) = Inr doc"
proof -
  from validate_ioc_fields [OF assms(1)] obtain v t m where
    f: "map_of r ''ioc_value'' = Some v" "map_of r ''ioc_type'' = Some t"
       "map_of r ''malware'' = Some m"
       "\<forall>c. map_of r ''confidence_level'' = Some c \<longrightarrow> (\<exists>n. num_of c = Some n)"
    by blast
  from parse_datetime_text [OF assms(2)] obtain g where
    g: "bind_exn (py_get (PDict r) ''first_seen_utc'' PNone) (parse_datetime strptime) = Inr g"
    by blast
  from parse_datetime_text [OF assms(3)] obtain h where
    h: "bind_exn (py_get (PDict r) ''last_seen_utc'' PNone) (parse_datetime strptime) = Inr h"
    by blast
  have "\<exists>n. num_of (case map_of r ''confidence_level'' of None \<Rightarrow> PInt 50 | Some c \<Rightarrow> c) = Some n"
    using f(4) by (auto split: option.splits)
  then obtain i where
    i: "bind_exn (bind_exn (py_get (PDict r) ''confidence_level'' (PInt 50)) (\<lambda>c. max_int c 0))
          (\<lambda>c. min_int c 100) = Inr i"
    using clamp_numeric by fastforce
  show ?thesis
    unfolding transform_item_def g h i
    using f by simp
qed

text \<open>The loop body produces a document for a record exactly when the record is mappable.\<close>

lemma parse_datetime_returns_text:
  "bind_exn (py_get (PDict r) k PNone) (parse_datetime strptime) = Inr v \<Longrightarrow>
   timestamp_text (map_of r k)"
  by (auto simp: timestamp_text_def parse_datetime_def split: option.splits pyval.splits if_splits)

lemma getitem_dict_Inr: "getitem (PDict r) k = Inr v \<Longrightarrow> map_of r k \<noteq> None"
  by (auto split: option.splits)

lemma transform_item_mappable:
  "(\<exists>doc. transform_item strptime now (PDict r) = Inr doc) = mappable r"
proof
  assume "\<exists>doc. transform_item strptime now (PDict r) = Inr doc"
  then obtain doc where doc: "transform_item strptime now (PDict r) = Inr doc" ..
  from transform_item_confidence [OF doc]
  have c: "case map_of r ''confidence_level'' of None \<Rightarrow> True | Some c \<Rightarrow> num_of c \<noteq> None"
    by (auto split: option.splits)
  from doc have "map_of r ''ioc_value'' \<noteq> None \<and> map_of r ''ioc_type'' \<noteq> None
      \<and> map_of r ''malware'' \<noteq> None
      \<and> timestamp_text (map_of r ''first_seen_utc'')
      \<and> timestamp_text (map_of r ''last_seen_utc'')"
    by (elim transform_item_cases)
       (intro conjI getitem_dict_Inr parse_datetime_returns_text; assumption)
  with c show "mappable r"
    by (simp add: mappable_def)
next
  assume m: "mappable r"
  then obtain v t ma where
    f: "map_of r ''ioc_value'' = Some v" "map_of r ''ioc_type'' = Some t"
       "map_of r ''malware'' = Some ma"
    by (auto simp: mappable_def)
  from m parse_datetime_text [of r "''first_seen_utc''" strptime] obtain g where
    g: "bind_exn (py_get (PDict r) ''first_seen_utc'' PNone) (parse_datetime strptime) = Inr g"
    by (auto simp: mappable_def)
  from m parse_datetime_text [of r "''last_seen_utc''" strptime] obtain h where
    h: "bind_exn (py_get (PDict r) ''last_seen_utc'' PNone) (parse_datetime strptime) = Inr h"
    by (auto simp: mappable_def)
  from m have "\<exists>n. num_of (case map_of r ''confidence_level'' of None \<Rightarrow> PInt 50 | Some c \<Rightarrow> c) = Some n"
    by (auto simp: mappable_def split: option.splits)
  then obtain i where
    i: "bind_exn (bind_exn (py_get (PDict r) ''confidence_level'' (PInt 50)) (\<lambda>c. max_int c 0))
          (\<lambda>c. min_int c 100) = Inr i"
    using clamp_numeric by fastforce
  show "\<exists>doc. transform_item strptime now (PDict r) = Inr doc"
    unfolding transform_item_def g h i
    using f by simp
qed

text \<open>
  C6. \<^verbatim>\<open>transform_data\<close> returns on a list of records (dicts), it produces a document
  for a record exactly when the record is mappable, and that document is in its result
  with the confidence 50 when the record has none, and with the record's confidence
  clamped into the interval from 0 to 100 otherwise: 150 gives 100 and \<open>-10\<close> gives 0.
  A \<^verbatim>\<open>bool\<close>, which Python counts as 0 or 1, comes through unchanged.
\<close>

theorem transform_data_confidence:
  assumes "\<forall>x \<in> set raw_data. \<exists>r. x = PDict r"
    and "j < length raw_data" and "raw_data ! j = PDict r"
  shows "\<exists>docs. transform_data strptime clock raw_data = Inr docs
           \<and> ((\<exists>doc. transform_item strptime (clock j) (raw_data ! j) = Inr doc) = mappable r)
           \<and> (\<forall>doc. transform_item strptime (clock j) (raw_data ! j) = Inr doc \<longrightarrow>
                  doc \<in> set docs
                  \<and> (map_of r ''confidence_level'' = None \<longrightarrow>
                       map_of doc ''confidence_level'' = Some (PInt 50))
                  \<and> (\<forall>n. map_of r ''confidence_level'' = Some (PInt n) \<longrightarrow>
                         map_of doc ''confidence_level'' = Some (PInt (min (max n 0) 100)))
                  \<and> (\<forall>b. map_of r ''confidence_level'' = Some (PBool b) \<longrightarrow>
                         map_of doc ''confidence_level'' = Some (PBool b))
                  \<and> (\<forall>c. map_of r ''confidence_level'' = Some c \<longrightarrow> num_of c \<noteq> None))"
proof -
  from transform_loop_dicts [OF assms(1)]
  obtain docs where docs: "transform_data strptime clock raw_data = Inr docs"
    unfolding transform_data_def by blast
  have "doc \<in> set docs" if "transform_item strptime (clock j) (raw_data ! j) = Inr doc" for doc
  proof -
    from that have "transform_item strptime (clock (0 + j)) (raw_data ! j) = Inr doc"
      by simp
    from transform_loop_complete [OF docs [unfolded transform_data_def] assms(2) this]
    show ?thesis .
  qed
  with docs transform_item_mappable [of strptime "clock j" r] assms(3)
  show ?thesis
    using transform_item_confidence [of strptime "clock j" r]
    by auto
qed

theorem transform_data_confidence_witness:
  "(\<exists>docs doc.
       transform_data no_parse midnight
         [PDict evil_com, PDict distrusted_record, PDict padded_record] = Inr docs
       \<and> transform_item no_parse (midnight 0) (PDict evil_com) = Inr doc \<and> doc \<in> set docs
       \<and> map_of evil_com ''confidence_level'' = Some (PInt 150)
       \<and> map_of doc ''confidence_level'' = Some (PInt 100))
   \<and> (\<exists>docs doc.
       transform_data no_parse midnight
         [PDict evil_com, PDict distrusted_record, PDict padded_record] = Inr docs
       \<and> transform_item no_parse (midnight 1) (PDict distrusted_record) = Inr doc \<and> doc \<in> set docs
       \<and> map_of distrusted_record ''confidence_level'' = Some (PInt (- 10))
       \<and> map_of doc ''confidence_level'' = Some (PInt 0))
   \<and> (\<exists>docs doc.
       transform_data no_parse midnight
         [PDict evil_com, PDict distrusted_record, PDict padded_record] = Inr docs
       \<and> transform_item no_parse (midnight 2) (PDict padded_record) = Inr doc \<and> doc \<in> set docs
       \<and> map_of padded_record ''confidence_level'' = None
       \<and> map_of doc ''confidence_level'' = Some (PInt 50))"
proof -
  let ?raw = "[PDict evil_com, PDict distrusted_record, PDict padded_record]"
  have m: "mappable evil_com" "mappable distrusted_record" "mappable padded_record"
    by (simp_all add: mappable_def timestamp_text_def evil_com_def distrusted_record_def
        padded_record_def)
  have c: "map_of evil_com ''confidence_level'' = Some (PInt 150)"
    "map_of distrusted_record ''confidence_level'' = Some (PInt (- 10))"
    "map_of padded_record ''confidence_level'' = None"
    by (simp_all add: evil_com_def distrusted_record_def padded_record_def)
  from transform_data_confidence [of ?raw 0 evil_com no_parse midnight] m(1) c(1)
  have 1: "\<exists>docs doc. transform_data no_parse midnight ?raw = Inr docs
       \<and> transform_item no_parse (midnight 0) (PDict evil_com) = Inr doc \<and> doc \<in> set docs
       \<and> map_of evil_com ''confidence_level'' = Some (PInt 150)
       \<and> map_of doc ''confidence_level'' = Some (PInt 100)"
    by auto
  from transform_data_confidence [of ?raw 1 distrusted_record no_parse midnight] m(2) c(2)
  have 2: "\<exists>docs doc. transform_data no_parse midnight ?raw = Inr docs
       \<and> transform_item no_parse (midnight 1) (PDict distrusted_record) = Inr doc \<and> doc \<in> set docs
       \<and> map_of distrusted_record ''confidence_level'' = Some (PInt (- 10))
       \<and> map_of doc ''confidence_level'' = Some (PInt 0)"
    by auto
  from transform_data_confidence [of ?raw 2 padded_record no_parse midnight] m(3) c(3)
  have 3: "\<exists>docs doc. transform_data no_parse midnight ?raw = Inr docs
       \<and> transform_item no_parse (midnight 2) (PDict padded_record) = Inr doc \<and> doc \<in> set docs
       \<and> map_of padded_record ''confidence_level'' = None
       \<and> map_of doc ''confidence_level'' = Some (PInt 50)"
    by auto
  from 1 2 3 show ?thesis by blast
qed

text \<open>
  A timestamp that is not a string, such as a number of seconds, is another matter:
  \<^verbatim>\<open>strptime\<close> raises \<^verbatim>\<open>TypeError\<close>, \<^verbatim>\<open>parse_datetime\<close> lets it through, and the
  record is skipped by the handler of the loop.
\<close>

lemma transform_item_numeric_timestamp:
  assumes "validate_ioc (PDict r) = Inr ()"
    and "map_of r ''first_seen_utc'' = Some (PInt n)" and "n \<noteq> 0"
  shows "transform_item strptime now (PDict r) = Inl TypeError"
proof -
  from validate_ioc_fields [OF assms(1)] obtain v t m where
    "map_of r ''ioc_value'' = Some v" "map_of r ''ioc_type'' = Some t"
    "map_of r ''malware'' = Some m"
    by blast
  with assms(2,3) show ?thesis
    by (simp add: transform_item_def parse_datetime_def)
qed

text \<open>
  C8, for timestamps that are text. A validated record whose \<open>first_seen_utc\<close> and
  \<open>last_seen_utc\<close> are each absent, a false value or a string gets its document from
  \<^verbatim>\<open>transform_data\<close>, and when one of the two is a string that does not parse, the
  document lacks the key \<open>first_seen\<close> or \<open>last_seen\<close> of that timestamp.
\<close>

theorem failed_timestamp_keeps_record:
  assumes "\<forall>x \<in> set raw_data. \<exists>r. x = PDict r"
    and "j < length raw_data" and "raw_data ! j = PDict r"
    and "validate_ioc (PDict r) = Inr ()"
    and "timestamp_text (map_of r ''first_seen_utc'')"
    and "timestamp_text (map_of r ''last_seen_utc'')"
  shows "\<exists>docs doc. transform_data strptime clock raw_data = Inr docs
           \<and> transform_item strptime (clock j) (raw_data ! j) = Inr doc
           \<and> doc \<in> set docs
           \<and> (\<forall>s. map_of r ''first_seen_utc'' = Some (PStr s) \<and> strptime s = None \<longrightarrow>
                  map_of doc ''first_seen'' = None)
           \<and> (\<forall>s. map_of r ''last_seen_utc'' = Some (PStr s) \<and> strptime s = None \<longrightarrow>
                  map_of doc ''last_seen'' = None)"
proof -
  from transform_loop_dicts [OF assms(1)]
  obtain docs where docs: "transform_data strptime clock raw_data = Inr docs"
    unfolding transform_data_def by blast
  from transform_item_validated [OF assms(4,5,6)]
  obtain doc where doc: "transform_item strptime (clock j) (PDict r) = Inr doc"
    by blast
  with assms(3) have "transform_item strptime (clock (0 + j)) (raw_data ! j) = Inr doc"
    by simp
  from transform_loop_complete [OF docs [unfolded transform_data_def] assms(2) this]
  have "doc \<in> set docs" .
  with docs doc assms(3) show ?thesis
    using transform_item_first_seen_absent [OF doc] transform_item_last_seen_absent [OF doc]
    by auto
qed

theorem failed_timestamp_keeps_record_witness:
  "map_of benign_record ''first_seen_utc'' = Some (PStr ''yesterday'')
   \<and> no_parse ''yesterday'' = None
   \<and> (\<exists>docs doc. transform_data no_parse midnight [PDict benign_record] = Inr docs
         \<and> transform_item no_parse (midnight 0) (PDict benign_record) = Inr doc
         \<and> doc \<in> set docs \<and> map_of doc ''first_seen'' = None)"
proof -
  have f: "map_of benign_record ''first_seen_utc'' = Some (PStr ''yesterday'')"
    and l: "map_of benign_record ''last_seen_utc'' = None"
    by (simp_all add: benign_record_def)
  have n: "no_parse ''yesterday'' = None"
    by (simp add: no_parse_def)
  from failed_timestamp_keeps_record [of "[PDict benign_record]" 0 benign_record no_parse midnight]
  have "\<exists>docs doc. transform_data no_parse midnight [PDict benign_record] = Inr docs
         \<and> transform_item no_parse (midnight 0) (PDict benign_record) = Inr doc
         \<and> doc \<in> set docs \<and> map_of doc ''first_seen'' = None"
    by (simp add: valid_benign timestamp_text_def f l n)
  with f n show ?thesis by simp
qed

text \<open>
  Without the restriction to text the statement fails: \<open>epoch_record\<close> validates, its
  \<open>first_seen_utc\<close> does not parse, \<^verbatim>\<open>strptime\<close> raising \<^verbatim>\<open>TypeError\<close> on a number,
  and \<^verbatim>\<open>transform_data\<close> returns no document for it.
\<close>

theorem failed_timestamp_drops_non_string:
  "validate_ioc (PDict epoch_record) = Inr ()
   \<and> map_of epoch_record ''first_seen_utc'' = Some (PInt 1700000000)
   \<and> parse_datetime no_parse (PInt 1700000000) = Inl TypeError
   \<and> transform_item no_parse (midnight 0) (PDict epoch_record) = Inl TypeError
   \<and> transform_data no_parse midnight [PDict epoch_record] = Inr []"
proof -
  have v: "validate_ioc (PDict epoch_record) = Inr ()"
    by (simp add: validate_ioc_def epoch_record_def required_fields_def is_blank_or_not_str_def
        strip_def is_space_def lacks_dot_def in_0_100_def)
  have f: "map_of epoch_record ''first_seen_utc'' = Some (PInt 1700000000)"
    by (simp add: epoch_record_def)
  have t: "transform_item no_parse (midnight 0) (PDict epoch_record) = Inl TypeError"
    using transform_item_numeric_timestamp [OF v f] by simp
  have "transform_data no_parse midnight [PDict epoch_record] = Inr []"
    by (simp add: transform_data_def t)
  with v f t show ?thesis
    by (simp add: parse_datetime_def)
qed

lemma transform_item_indicator:
  assumes "transform_item strptime now (PDict r) = Inr doc"
    and "map_of r ''ioc_value'' = Some (PStr s)"
  shows "map_of doc ''indicator'' = Some (PStr s)"
  using assms
  by (elim transform_item_cases)
     (auto simp: map_of_filter_distinct distinct_doc_of map_of_doc_of_indicator kept_def)

lemma operations_single:
  "map_of doc ''indicator'' = Some v \<Longrightarrow> operations [doc] = Inr [UpdateOne v doc]"
  by simp

text \<open>
  C10. A record whose \<open>ioc_value\<close> is a string padded with white space and non-empty
  once trimmed is accepted by \<^verbatim>\<open>validate_ioc\<close> when the other rules of the validator
  are met; the transformer stores the string as it is under \<open>indicator\<close>, and the filter
  of the upsert built from the document is that string, not its trimmed form.
\<close>

theorem padded_indicator_is_stored_untrimmed:
  assumes "map_of r ''ioc_value'' = Some (PStr s)"
    and "strip s \<noteq> []" and "s \<noteq> strip s"
    and "map_of r ''ioc_type'' \<noteq> None" and "map_of r ''malware'' \<noteq> None"
    and "map_of r ''ioc_type'' = Some (PStr ''domain'') \<longrightarrow> CHR ''.'' \<in> set s"
    and "\<forall>c. map_of r ''confidence_level'' = Some c \<longrightarrow> (\<exists>n. num_of c = Some n \<and> 0 \<le> n \<and> n \<le> 100)"
  shows "validate_ioc (PDict r) = Inr ()
       \<and> (\<forall>doc. transform_item strptime now (PDict r) = Inr doc \<longrightarrow>
              map_of doc ''indicator'' = Some (PStr s)
              \<and> (\<exists>op. operations [doc] = Inr [op] \<and> filter_indicator op = PStr s
                    \<and> filter_indicator op \<noteq> PStr (strip s)))
       \<and> (timestamp_text (map_of r ''first_seen_utc'') \<and> timestamp_text (map_of r ''last_seen_utc'') \<longrightarrow>
              (\<exists>doc. transform_item strptime now (PDict r) = Inr doc))"
proof -
  have "\<not> spec_rejects r"
    using assms unfolding spec_rejects_def
    by (auto split: option.splits)
  then have v: "validate_ioc (PDict r) = Inr ()"
    by (simp add: validate_ioc_accepts_iff)
  have "map_of doc ''indicator'' = Some (PStr s)
        \<and> (\<exists>op. operations [doc] = Inr [op] \<and> filter_indicator op = PStr s
              \<and> filter_indicator op \<noteq> PStr (strip s))"
    if "transform_item strptime now (PDict r) = Inr doc" for doc
  proof -
    from transform_item_indicator [OF that assms(1)]
    have i: "map_of doc ''indicator'' = Some (PStr s)" .
    from operations_single [OF i] assms(3) i show ?thesis by simp
  qed
  with v transform_item_validated [OF v] show ?thesis by blast
qed

theorem padded_indicator_is_stored_untrimmed_witness:
  "validate_ioc (PDict padded_record) = Inr ()
   \<and> transform_item no_parse (midnight 0) (PDict padded_record) = Inr padded_doc
   \<and> operations [padded_doc] = Inr [UpdateOne (PStr '' evil.com '') padded_doc]
   \<and> strip '' evil.com '' = ''evil.com''"
proof -
  have s: "strip '' evil.com '' = ''evil.com''"
    by (simp add: strip_def is_space_def)
  have "map_of padded_record ''ioc_value'' = Some (PStr '' evil.com '')"
    "map_of padded_record ''ioc_type'' = Some (PStr ''domain'')"
    "map_of padded_record ''malware'' = Some (PStr ''X'')"
    "map_of padded_record ''confidence_level'' = None"
    by (simp_all add: padded_record_def)
  with padded_indicator_is_stored_untrimmed [of padded_record "'' evil.com ''" no_parse "midnight 0"] s
  have "validate_ioc (PDict padded_record) = Inr ()"
    and "\<forall>doc. transform_item no_parse (midnight 0) (PDict padded_record) = Inr doc \<longrightarrow>
           (\<exists>op. operations [doc] = Inr [op] \<and> filter_indicator op = PStr '' evil.com '')"
    by simp_all
  moreover have "operations [padded_doc] = Inr [UpdateOne (PStr '' evil.com '') padded_doc]"
    by (simp add: padded_doc_def)
  ultimately show ?thesis
    using s transform_padded [of 0] by simp
qed

section \<open>Loading: results\<close>

lemma ensure_indexes_trace:
  "ensure_indexes d ixs s = (r, s', tr) \<Longrightarrow>
   \<forall>e \<in> set tr. e = EIndexInformation \<or> (\<exists>n. e = ECreateIndex n)"
proof (induction ixs arbitrary: s r s' tr)
  case Nil
  then show ?case by simp
next
  case (Cons ix ixs)
  obtain name keys where ix: "ix = (name, keys)" by (cases ix)
  from Cons.prems show ?case
    unfolding ix
    by (auto split: prod.splits sum.splits if_splits dest!: Cons.IH)
qed

lemma verify_trace:
  "verify_mongodb_insert d n s = (r, s', tr) \<Longrightarrow> tr = [ECountDocuments]"
  by (auto simp: verify_mongodb_insert_def split: prod.splits sum.splits)

lemma load_body_trace:
  assumes "load_body d docs s = (r, s', tr)"
  shows "EClient \<notin> set tr \<and> EClose \<notin> set tr \<and> EClientFailed \<notin> set tr"
  using assms unfolding load_body_def
  by (auto split: prod.splits sum.splits dest!: ensure_indexes_trace verify_trace)

lemma load_data_client_failure:
  "transformed_data \<noteq> [] \<Longrightarrow> mongo_client d s = (Inl e, s1) \<Longrightarrow>
   load_data d transformed_data s = (Inl UnboundLocalError, s1, [EClientFailed])"
  by (simp add: load_data_def)

lemma load_data_with_client:
  assumes "transformed_data \<noteq> []" and "mongo_client d s = (Inr u, s1)"
    and "load_body d transformed_data s1 = (r, s2, tr)"
  shows "load_data d transformed_data s =
           (Inr (case r of Inl e \<Rightarrow> False | Inr ok \<Rightarrow> ok), close d s2, EClient # tr @ [EClose])"
  using assms by (simp add: load_data_def split: sum.splits)

text \<open>Once the client exists, \<^verbatim>\<open>load_data\<close> returns a truth value.\<close>

lemma load_data_returns_with_client:
  assumes "mongo_client d s = (Inr u, s1)"
  shows "\<exists>ok s' tr. load_data d transformed_data s = (Inr ok, s', tr)"
proof (cases "transformed_data = []")
  case True
  then have "load_data d transformed_data s = (Inr False, s, [])"
    by (simp add: load_data_def)
  then show ?thesis by blast
next
  case False
  obtain r s2 tr where "load_body d transformed_data s1 = (r, s2, tr)"
    by (cases "load_body d transformed_data s1") auto
  from load_data_with_client [OF False assms this] show ?thesis by blast
qed

lemma memory_driver_calls:
  "mongo_client (memory_driver matches) s = (Inr (), s\<lparr>client_open := True\<rparr>)"
  "get_collection (memory_driver matches) s = (Inr (), s)"
  "count_documents (memory_driver matches) s = (Inr (int (length (documents s))), s)"
  "index_information (memory_driver matches) s = (Inr (index_names s), s)"
  "create_index (memory_driver matches) keys name s = (Inr (), s\<lparr>index_names := index_names s @ [name]\<rparr>)"
  "bulk_write (memory_driver matches) ops s =
     (case apply_bulk matches ops (documents s) of (coll, r) \<Rightarrow> (Inr r, s\<lparr>documents := coll\<rparr>))"
  "close (memory_driver matches) s = s\<lparr>client_open := False\<rparr>"
  by (simp_all add: memory_driver_def)

lemma load_refusing:
  "fst (load_data refusing_driver [benign_doc] empty_store) = Inl UnboundLocalError"
  by (simp add: load_data_def refusing_driver_def)

text \<open>
  C2. On a non-empty input \<^verbatim>\<open>load_data\<close> lets no exception out and returns
  \<^verbatim>\<open>False\<close> on any failure of the store. The code does not do that when
  \<^verbatim>\<open>MongoClient(...)\<close> itself raises: the \<^verbatim>\<open>finally\<close> clause reads the unassigned
  \<^verbatim>\<open>client\<close> and \<^verbatim>\<open>UnboundLocalError\<close> leaves the function.
\<close>

theorem load_data_raises_without_client:
  "load_data refusing_driver [benign_doc] empty_store =
     (Inl UnboundLocalError, empty_store, [EClientFailed])"
  by (simp add: load_data_def refusing_driver_def)

text \<open>
  C3. On every path of \<^verbatim>\<open>load_data\<close> on which the client was created, the last call
  made is \<^verbatim>\<open>client.close()\<close>, made once, and the store is left as that call leaves it.
  On the two paths without a client (empty input, \<^verbatim>\<open>MongoClient(...)\<close> raising) there
  is no connection, and no call of \<^verbatim>\<open>close\<close> either.
\<close>

theorem load_data_closes_client:
  assumes "load_data d transformed_data s = (r, s', tr)"
  shows "((transformed_data \<noteq> [] \<and> (\<exists>u s1. mongo_client d s = (Inr u, s1))) \<longrightarrow>
            (\<exists>s2 tr'. s' = close d s2 \<and> tr = EClient # tr' @ [EClose]
                \<and> EClient \<notin> set tr' \<and> EClose \<notin> set tr'))
       \<and> ((transformed_data = [] \<or> (\<exists>e s1. mongo_client d s = (Inl e, s1))) \<longrightarrow>
            EClient \<notin> set tr \<and> EClose \<notin> set tr)"
proof (intro conjI impI)
  assume a: "transformed_data \<noteq> [] \<and> (\<exists>u s1. mongo_client d s = (Inr u, s1))"
  then obtain u s1 where c: "mongo_client d s = (Inr u, s1)" by blast
  obtain rb s2 trb where b: "load_body d transformed_data s1 = (rb, s2, trb)"
    by (cases "load_body d transformed_data s1") auto
  from load_data_with_client [OF _ c b] a assms
  have "s' = close d s2" "tr = EClient # trb @ [EClose]" by simp_all
  with load_body_trace [OF b]
  show "\<exists>s2 tr'. s' = close d s2 \<and> tr = EClient # tr' @ [EClose]
          \<and> EClient \<notin> set tr' \<and> EClose \<notin> set tr'"
    by blast
next
  assume "transformed_data = [] \<or> (\<exists>e s1. mongo_client d s = (Inl e, s1))"
  with assms show "EClient \<notin> set tr" "EClose \<notin> set tr"
    by (auto simp: load_data_def split: if_splits)
qed

theorem load_data_closes_client_witness:
  "\<exists>s2 tr'.
     fst (snd (load_data (memory_driver indicator_is) [benign_doc] empty_store))
       = close (memory_driver indicator_is) s2
     \<and> snd (snd (load_data (memory_driver indicator_is) [benign_doc] empty_store))
       = EClient # tr' @ [EClose]
     \<and> EClient \<notin> set tr' \<and> EClose \<notin> set tr'"
  using load_data_closes_client [of "memory_driver indicator_is" "[benign_doc]" empty_store
      "fst (load_data (memory_driver indicator_is) [benign_doc] empty_store)"
      "fst (snd (load_data (memory_driver indicator_is) [benign_doc] empty_store))"
      "snd (snd (load_data (memory_driver indicator_is) [benign_doc] empty_store))"]
  by (simp add: memory_driver_calls)

section \<open>The upsert on the store in memory: results\<close>

lemma map_of_set_field: "map_of (set_field k v d) = (map_of d)(k \<mapsto> v)"
  by (induction d) auto

lemma map_of_apply_set_absent:
  "k \<notin> fst ` set doc \<Longrightarrow> map_of (apply_set doc stored) k = map_of stored k"
  by (induction doc arbitrary: stored) (auto simp: map_of_set_field)

lemma map_of_apply_set_present:
  "distinct (map fst doc) \<Longrightarrow> map_of doc k = Some v \<Longrightarrow> map_of (apply_set doc stored) k = Some v"
proof (induction doc arbitrary: stored)
  case Nil
  then show ?case by simp
next
  case (Cons kv doc)
  obtain k' v' where kv: "kv = (k', v')" by (cases kv)
  show ?case
  proof (cases "k' = k")
    case True
    with Cons.prems kv have "k \<notin> fst ` set doc" "v' = v" by auto
    then show ?thesis
      using kv True by (simp add: map_of_apply_set_absent map_of_set_field)
  next
    case False
    with Cons kv show ?thesis by simp
  qed
qed

lemma keys_set_field: "fst ` set (set_field k v d) = insert k (fst ` set d)"
proof -
  have "dom (map_of (set_field k v d)) = insert k (dom (map_of d))"
    by (simp add: map_of_set_field)
  then show ?thesis
    by (simp add: dom_map_of_conv_image_fst)
qed

lemma keys_apply_set: "fst ` set (apply_set doc stored) = fst ` set doc \<union> fst ` set stored"
proof (induction doc arbitrary: stored)
  case Nil
  then show ?case by simp
next
  case (Cons kv doc)
  obtain k v where kv: "kv = (k, v)" by (cases kv)
  have "fst ` set (apply_set (kv # doc) stored) = fst ` set doc \<union> insert k (fst ` set stored)"
    unfolding kv by (simp add: Cons.IH keys_set_field)
  then show ?case
    unfolding kv by auto
qed

lemma upsert_one_first_match:
  assumes "i < length coll" and "matches v (coll ! i)" and "\<forall>j < i. \<not> matches v (coll ! j)"
  shows "upsert_one matches (UpdateOne v doc) coll =
           (coll[i := apply_set doc (coll ! i)],
            \<lparr>upserted_count = 0,
             modified_count = (if apply_set doc (coll ! i) = coll ! i then 0 else 1)\<rparr>)"
  using assms
proof (induction coll arbitrary: i)
  case Nil
  then show ?case by simp
next
  case (Cons stored coll)
  show ?case
  proof (cases i)
    case 0
    with Cons.prems show ?thesis by simp
  next
    case (Suc i')
    with Cons.prems have "\<not> matches v stored" by auto
    moreover from Cons.prems Suc have "i' < length coll" "matches v (coll ! i')"
      "\<forall>j < i'. \<not> matches v (coll ! j)" by auto
    ultimately show ?thesis
      using Cons.IH [of i'] Suc by simp
  qed
qed

lemma upsert_one_no_match:
  assumes "\<forall>stored \<in> set coll. \<not> matches v stored"
  shows "upsert_one matches (UpdateOne v doc) coll =
           (coll @ [apply_set doc [(''indicator'', v)]], \<lparr>upserted_count = 1, modified_count = 0\<rparr>)"
  using assms by (induction coll) auto

lemma upsert_one_length:
  "upsert_one matches op coll = (coll', r) \<Longrightarrow>
   int (length coll') = int (length coll) + upserted_count r"
proof (induction coll arbitrary: coll' r)
  case Nil
  then show ?case by (cases op) auto
next
  case (Cons stored coll)
  then show ?case
    by (cases op) (auto split: if_splits prod.splits)
qed

lemma apply_bulk_length:
  "apply_bulk matches ops coll = (coll', r) \<Longrightarrow>
   int (length coll') = int (length coll) + upserted_count r"
proof (induction ops arbitrary: coll coll' r)
  case Nil
  then show ?case by auto
next
  case (Cons op ops)
  then show ?case
    by (auto split: prod.splits dest!: upsert_one_length)
qed

lemma upsert_one_frame:
  "upsert_one matches (UpdateOne v doc) coll = (coll', r) \<Longrightarrow> i < length coll \<Longrightarrow>
   i < length coll' \<and> (coll' ! i = coll ! i \<or> coll' ! i = apply_set doc (coll ! i))"
proof (induction coll arbitrary: coll' r i)
  case Nil
  then show ?case by simp
next
  case (Cons stored coll)
  show ?case
  proof (cases "matches v stored")
    case True
    with Cons.prems show ?thesis by (cases i) auto
  next
    case False
    obtain c1 r1 where u: "upsert_one matches (UpdateOne v doc) coll = (c1, r1)"
      by (cases "upsert_one matches (UpdateOne v doc) coll") auto
    with False Cons.prems have c: "coll' = stored # c1" by simp
    show ?thesis
    proof (cases i)
      case 0
      with c show ?thesis by simp
    next
      case (Suc i')
      with Cons.prems have "i' < length coll" by simp
      from Cons.IH [OF u this] c Suc show ?thesis by simp
    qed
  qed
qed

lemma apply_bulk_frame:
  "apply_bulk matches ops coll = (coll', r) \<Longrightarrow> i < length coll \<Longrightarrow>
   \<forall>op \<in> set ops. k \<notin> fst ` set (set_doc op) \<Longrightarrow>
   i < length coll' \<and> map_of (coll' ! i) k = map_of (coll ! i) k"
proof (induction ops arbitrary: coll coll' r)
  case Nil
  then show ?case by simp
next
  case (Cons op ops)
  obtain v doc where op: "op = UpdateOne v doc" by (cases op)
  obtain c1 r1 where u: "upsert_one matches (UpdateOne v doc) coll = (c1, r1)"
    by (cases "upsert_one matches (UpdateOne v doc) coll") auto
  obtain c2 r2 where b: "apply_bulk matches ops c1 = (c2, r2)"
    by (cases "apply_bulk matches ops c1") auto
  from Cons.prems u b op have c: "coll' = c2" by simp
  from upsert_one_frame [OF u Cons.prems(2)]
  have i1: "i < length c1" and "c1 ! i = coll ! i \<or> c1 ! i = apply_set doc (coll ! i)"
    by simp_all
  moreover from Cons.prems(3) op have "k \<notin> fst ` set doc" by simp
  ultimately have m1: "map_of (c1 ! i) k = map_of (coll ! i) k"
    by (auto simp: map_of_apply_set_absent)
  from Cons.prems(3) have "\<forall>op \<in> set ops. k \<notin> fst ` set (set_doc op)" by simp
  from Cons.IH [OF b i1 this] m1 c show ?case by simp
qed

lemma operations_set_doc: "operations docs = Inr ops \<Longrightarrow> map set_doc ops = docs"
  by (induction docs arbitrary: ops) (auto split: option.splits sum.splits)

lemma ensure_indexes_memory:
  "ensure_indexes (memory_driver matches) ixs s = (r, s', tr) \<Longrightarrow>
   r = Inr () \<and> documents s' = documents s \<and> client_open s' = client_open s"
proof (induction ixs arbitrary: s r s' tr)
  case Nil
  then show ?case by simp
next
  case (Cons ix ixs)
  obtain name keys where ix: "ix = (name, keys)" by (cases ix)
  from Cons.prems show ?case
    unfolding ix
    by (auto simp: memory_driver_calls split: prod.splits if_splits dest!: Cons.IH)
qed

lemma load_body_memory:
  assumes "operations docs = Inr ops"
    and "apply_bulk matches ops (documents s) = (coll, res)"
  shows "\<exists>s' tr. load_body (memory_driver matches) docs s = (Inr True, s', tr)
           \<and> documents s' = coll \<and> client_open s' = client_open s"
proof -
  obtain r1 s1 tr1 where e: "ensure_indexes (memory_driver matches) indexes s = (r1, s1, tr1)"
    by (cases "ensure_indexes (memory_driver matches) indexes s") auto
  from ensure_indexes_memory [OF e]
  have r1: "r1 = Inr ()" and s1: "documents s1 = documents s" "client_open s1 = client_open s"
    by simp_all
  from apply_bulk_length [OF assms(2)]
  have "\<not> int (length coll) < int (length (documents s)) + upserted_count res"
    by simp
  then show ?thesis
    unfolding load_body_def
    using e r1 s1 assms
    by (simp add: memory_driver_calls verify_mongodb_insert_def)
qed

lemma load_data_memory:
  assumes "docs \<noteq> []" and "operations docs = Inr ops"
    and "apply_bulk matches ops (documents s) = (coll, res)"
  shows "\<exists>s' tr. load_data (memory_driver matches) docs s = (Inr True, s', tr)
           \<and> documents s' = coll \<and> client_open s' = False"
proof -
  from load_body_memory [OF assms(2), of matches "s\<lparr>client_open := True\<rparr>" coll res] assms(3)
  obtain s2 tr2 where
    b: "load_body (memory_driver matches) docs (s\<lparr>client_open := True\<rparr>) = (Inr True, s2, tr2)"
    and s2: "documents s2 = coll"
    by auto
  from load_data_with_client [OF assms(1) memory_driver_calls(1) b] s2
  show ?thesis
    by (simp add: memory_driver_calls)
qed

lemma load_data_memory_documents:
  assumes "load_data (memory_driver matches) docs s = (r, s', tr)"
  shows "documents s' = documents s
       \<or> (\<exists>ops. operations docs = Inr ops \<and> documents s' = fst (apply_bulk matches ops (documents s)))"
proof (cases "docs = []")
  case True
  with assms show ?thesis by (simp add: load_data_def)
next
  case False
  show ?thesis
  proof (cases "operations docs")
    case (Inr ops)
    obtain coll res where b: "apply_bulk matches ops (documents s) = (coll, res)"
      by (cases "apply_bulk matches ops (documents s)") auto
    from load_data_memory [OF False Inr b] assms b Inr show ?thesis by auto
  next
    case (Inl e)
    obtain r1 s1 tr1 where en:
      "ensure_indexes (memory_driver matches) indexes (s\<lparr>client_open := True\<rparr>) = (r1, s1, tr1)"
      by (cases "ensure_indexes (memory_driver matches) indexes (s\<lparr>client_open := True\<rparr>)") auto
    from ensure_indexes_memory [OF en] have "r1 = Inr ()" "documents s1 = documents s"
      by simp_all
    with assms False Inl en show ?thesis
      by (auto simp: load_data_def load_body_def memory_driver_calls)
  qed
qed

text \<open>
  Over a whole batch: a key that no document of the batch has keeps, in every stored
  document, the value it had.
\<close>

lemma load_data_batch_frame:
  assumes "load_data (memory_driver matches) docs s = (r, s', tr)"
    and "i < length (documents s)"
    and "\<forall>doc \<in> set docs. k \<notin> fst ` set doc"
  shows "i < length (documents s') \<and> map_of (documents s' ! i) k = map_of (documents s ! i) k"
proof -
  from load_data_memory_documents [OF assms(1)]
  consider "documents s' = documents s"
    | ops where "operations docs = Inr ops"
        "documents s' = fst (apply_bulk matches ops (documents s))"
    by blast
  then show ?thesis
  proof cases
    case 1
    with assms(2) show ?thesis by simp
  next
    case 2
    from operations_set_doc [OF 2(1)] assms(3)
    have absent: "\<forall>op \<in> set ops. k \<notin> fst ` set (set_doc op)" by auto
    obtain coll res where b: "apply_bulk matches ops (documents s) = (coll, res)"
      by (cases "apply_bulk matches ops (documents s)") auto
    from apply_bulk_frame [OF b assms(2) absent] b 2(2)
    show ?thesis by simp
  qed
qed

lemma load_benign_empty:
  "fst (load_data (memory_driver indicator_is) [benign_doc] empty_store) = Inr True"
  by (simp add: load_data_def load_body_def memory_driver_calls indexes_def empty_store_def
      verify_mongodb_insert_def benign_doc_def)

text \<open>
  C9. When a document is stored under the indicator of the new document (it is the first
  one the filter matches), loading the new document succeeds and replaces the stored
  document by the stored document with the fields of the new one set: a key absent from
  the new document keeps the value it had, no key of the stored document is deleted,
  no key appears that neither of the two had, and a key of the new document gets the value
  the new document gives it.
\<close>

theorem load_data_keeps_absent_fields:
  assumes "map_of doc ''indicator'' = Some v"
    and "i < length (documents s)"
    and "matches v (documents s ! i)"
    and "\<forall>j < i. \<not> matches v (documents s ! j)"
  shows "\<exists>s' tr. load_data (memory_driver matches) [doc] s = (Inr True, s', tr)
           \<and> documents s' = (documents s)[i := apply_set doc (documents s ! i)]
           \<and> (\<forall>k. k \<notin> fst ` set doc \<longrightarrow>
                  map_of (documents s' ! i) k = map_of (documents s ! i) k)
           \<and> (\<forall>k. k \<in> fst ` set (documents s ! i) \<longrightarrow> k \<in> fst ` set (documents s' ! i))
           \<and> (\<forall>k. k \<in> fst ` set (documents s' ! i) \<longrightarrow>
                  k \<in> fst ` set doc \<or> k \<in> fst ` set (documents s ! i))
           \<and> (distinct (map fst doc) \<longrightarrow>
                  (\<forall>k x. map_of doc k = Some x \<longrightarrow> map_of (documents s' ! i) k = Some x))"
proof -
  let ?new = "(documents s)[i := apply_set doc (documents s ! i)]"
  from upsert_one_first_match [of i "documents s" matches v doc] assms(2,3,4)
  have "apply_bulk matches [UpdateOne v doc] (documents s) =
          (?new, \<lparr>upserted_count = 0,
                  modified_count = (if apply_set doc (documents s ! i) = documents s ! i then 0 else 1)\<rparr>)"
    by simp
  from load_data_memory [OF _ operations_single [OF assms(1)] this]
  obtain s' tr where l: "load_data (memory_driver matches) [doc] s = (Inr True, s', tr)"
    and d: "documents s' = ?new"
    by auto
  from d assms(2) have n: "documents s' ! i = apply_set doc (documents s ! i)"
    by simp
  have "\<forall>k. k \<notin> fst ` set doc \<longrightarrow> map_of (documents s' ! i) k = map_of (documents s ! i) k"
    unfolding n by (simp add: map_of_apply_set_absent)
  moreover have "fst ` set (documents s' ! i) = fst ` set doc \<union> fst ` set (documents s ! i)"
    unfolding n by (rule keys_apply_set)
  moreover have "distinct (map fst doc) \<longrightarrow>
      (\<forall>k x. map_of doc k = Some x \<longrightarrow> map_of (documents s' ! i) k = Some x)"
    unfolding n by (simp add: map_of_apply_set_present)
  ultimately show ?thesis
    using l d by auto
qed

theorem load_data_keeps_absent_fields_witness:
  "map_of benign_doc ''first_seen'' = None
   \<and> map_of stored_doc ''first_seen'' = Some (PDatetime (Datetime 2023 12 31 8 0 0 0))
   \<and> (\<exists>s' tr. load_data (memory_driver indicator_is) [benign_doc] used_store = (Inr True, s', tr)
         \<and> map_of (documents s' ! 0) ''first_seen'' = Some (PDatetime (Datetime 2023 12 31 8 0 0 0)))"
proof -
  have a: "map_of benign_doc ''indicator'' = Some (PStr ''bad.example'')"
    and b: "map_of benign_doc ''first_seen'' = None"
    and k: "''first_seen'' \<notin> fst ` set benign_doc"
    by (simp_all add: benign_doc_def)
  have c: "map_of stored_doc ''first_seen'' = Some (PDatetime (Datetime 2023 12 31 8 0 0 0))"
    and m: "indicator_is (PStr ''bad.example'') stored_doc"
    by (simp_all add: stored_doc_def indicator_is_def)
  from load_data_keeps_absent_fields [of benign_doc "PStr ''bad.example''" 0 used_store indicator_is]
    a m
  obtain s' tr where "load_data (memory_driver indicator_is) [benign_doc] used_store = (Inr True, s', tr)"
    and "\<forall>k. k \<notin> fst ` set benign_doc \<longrightarrow>
           map_of (documents s' ! 0) k = map_of (documents used_store ! 0) k"
    by (auto simp: used_store_def)
  with k c have "load_data (memory_driver indicator_is) [benign_doc] used_store = (Inr True, s', tr)
      \<and> map_of (documents s' ! 0) ''first_seen'' = Some (PDatetime (Datetime 2023 12 31 8 0 0 0))"
    by (simp add: used_store_def)
  with b c show ?thesis by blast
qed

section \<open>Orchestration: results\<close>

text \<open>
  C7. \<^verbatim>\<open>run_etl\<close> returns \<^verbatim>\<open>False\<close> after the extractor alone when the extractor
  yields nothing, returns \<^verbatim>\<open>False\<close> after the transformer, without loading, when the
  transformer yields nothing, and otherwise returns what the loader returns; an exception
  that leaves the transformer or the loader becomes \<^verbatim>\<open>False\<close>. \<^verbatim>\<open>run_etl\<close> itself
  always returns.
\<close>

theorem run_etl_stages:
  "(extract_data got = [] \<longrightarrow> run_etl got strptime clock d s = (False, [Extract]))
   \<and> (extract_data got \<noteq> [] \<and> transform_data strptime clock (extract_data got) = Inr [] \<longrightarrow>
         run_etl got strptime clock d s = (False, [Extract, Transform]))
   \<and> (\<forall>docs. extract_data got \<noteq> [] \<and> transform_data strptime clock (extract_data got) = Inr docs
           \<and> docs \<noteq> [] \<longrightarrow>
         run_etl got strptime clock d s =
           ((case fst (load_data d docs s) of Inl e \<Rightarrow> False | Inr success \<Rightarrow> success),
            [Extract, Transform, Load]))
   \<and> (\<forall>e. extract_data got \<noteq> [] \<and> transform_data strptime clock (extract_data got) = Inl e \<longrightarrow>
         run_etl got strptime clock d s = (False, [Extract, Transform]))"
  by (auto simp: run_etl_def Let_def split: sum.splits)

theorem run_etl_stages_witness:
  "run_etl (Inl (External ''ConnectionError'')) no_parse midnight (memory_driver indicator_is) empty_store
     = (False, [Extract])
   \<and> run_etl (Inr benign_feed) no_parse midnight (memory_driver indicator_is) empty_store
     = (True, [Extract, Transform, Load])
   \<and> run_etl (Inr benign_feed) no_parse midnight refusing_driver empty_store
     = (False, [Extract, Transform, Load])"
proof -
  have t: "transform_data no_parse midnight [PDict benign_record] = Inr [benign_doc]"
    by (simp add: transform_data_def transform_benign)
  have "extract_data (Inl (External ''ConnectionError'')) = []"
    by (simp add: extract_data_def extract_body_def)
  with run_etl_stages [of "Inl (External ''ConnectionError'')" no_parse midnight
      "memory_driver indicator_is" empty_store]
  have 1: "run_etl (Inl (External ''ConnectionError'')) no_parse midnight
             (memory_driver indicator_is) empty_store = (False, [Extract])"
    by simp
  from run_etl_stages [of "Inr benign_feed" no_parse midnight "memory_driver indicator_is" empty_store]
  have 2: "run_etl (Inr benign_feed) no_parse midnight (memory_driver indicator_is) empty_store
             = (True, [Extract, Transform, Load])"
    by (simp add: extract_benign_feed t load_benign_empty)
  from run_etl_stages [of "Inr benign_feed" no_parse midnight refusing_driver empty_store]
  have 3: "run_etl (Inr benign_feed) no_parse midnight refusing_driver empty_store
             = (False, [Extract, Transform, Load])"
    by (simp add: extract_benign_feed t load_refusing)
  from 1 2 3 show ?thesis by simp
qed

end
